theory Spec2Isabelle
  imports Main "HOL-Library.Char_ord" "HOL-Library.List_Lexorder" "HOL-Library.Product_Lexorder"
    "HOL-Library.AList" "HOL-Library.Multiset"
begin

section \<open>Documents\<close>

text \<open>
  The resolver (\<^verbatim>\<open>dm_core/resolver.py\<close>) reads a parsed model document through a handful
  of keys.  A key that may be absent is an \<open>option\<close> field, so that every
  \<^verbatim>\<open>d.get(key, default)\<close> of the source is a \<open>case\<close> on that field with the source's
  default.  The list-valued keys (\<^verbatim>\<open>imports\<close>, \<^verbatim>\<open>entities\<close>, \<^verbatim>\<open>relationships\<close>) default
  to the empty list in every place the resolver reads them, so absence and \<open>[]\<close> are the
  same value here.  The types fix the shape of a well-formed document: names are strings,
  collections are lists.
\<close>

record import_entry =
  imp_model :: "string option"
  imp_alias :: "string option"
  imp_path :: "string option"
  imp_entities :: "string list option"

record entity =
  ent_name :: "string option"
  ent_type :: "string option"

record relationship =
  rel_name :: "string option"
  rel_from :: "string option"
  rel_to :: "string option"
  rel_cardinality :: "string option"

record model_doc =
  doc_name :: "string option"
  doc_imports :: "import_entry list"
  doc_entities :: "entity list"
  doc_relationships :: "relationship list"

text \<open>The empty mapping \<^verbatim>\<open>{}\<close>, the initial \<^verbatim>\<open>root_model\<close> of a \<^verbatim>\<open>ResolvedModel\<close>.\<close>

definition empty_doc :: model_doc where
  "empty_doc = \<lparr>doc_name = None, doc_imports = [], doc_entities = [], doc_relationships = []\<rparr>"

text \<open>\<^verbatim>\<open>d.get(key, default)\<close> and Python truthiness of a string.\<close>

definition get_or :: "'a option \<Rightarrow> 'a \<Rightarrow> 'a" where
  "get_or v d = (case v of None \<Rightarrow> d | Some x \<Rightarrow> x)"

definition truthy :: "string \<Rightarrow> bool" where
  "truthy s = (s \<noteq> [])"

section \<open>File system and loader\<close>

text \<open>
  A path is the list of its components from the root.  The file system and the document
  loader \<^verbatim>\<open>load_yaml_model\<close> (which is not part of the resolver) are parameters:
  \<^item> \<open>fs_exists p\<close> is \<^verbatim>\<open>p.exists()\<close>, \<open>fs_is_dir p\<close> is \<^verbatim>\<open>p.is_dir()\<close>;
  \<^item> \<open>fs_iterdir p\<close> lists the entry names of \<^verbatim>\<open>p.iterdir()\<close>, in the order the system
    gives them;
  \<^item> \<open>fs_rel d s\<close> is \<^verbatim>\<open>(d / s).resolve()\<close> when \<^verbatim>\<open>(d / s).exists()\<close>, and \<open>None\<close> otherwise;
  \<^item> \<open>fs_load p\<close> is the result of \<^verbatim>\<open>load_yaml_model(str(p))\<close>: \<open>Inl msg\<close> when it raises
    an exception whose text is \<open>msg\<close>.
\<close>

type_synonym path = "string list"

record fs =
  fs_exists :: "path \<Rightarrow> bool"
  fs_is_dir :: "path \<Rightarrow> bool"
  fs_iterdir :: "path \<Rightarrow> string list"
  fs_rel :: "path \<Rightarrow> string \<Rightarrow> path option"
  fs_load :: "path \<Rightarrow> string + model_doc"

definition parent :: "path \<Rightarrow> path" where
  "parent p = butlast p"

definition candidates :: "string \<Rightarrow> string list" where
  "candidates model_name = [model_name @ ''.model.yaml'', model_name @ ''.model.yml'']"

text \<open>The inner loop \<^verbatim>\<open>for candidate in candidates\<close>: the first candidate that exists in \<open>d\<close>.\<close>

fun first_candidate :: "fs \<Rightarrow> path \<Rightarrow> string list \<Rightarrow> path option" where
  "first_candidate f d [] = None"
| "first_candidate f d (c # cs) =
     (if fs_exists f (d @ [c]) then Some (d @ [c]) else first_candidate f d cs)"

definition hidden :: "string \<Rightarrow> bool" where
  "hidden n = (case n of [] \<Rightarrow> False | c # _ \<Rightarrow> c = CHR ''.'')"

text \<open>The loop \<^verbatim>\<open>for sub in sorted(search_dir.iterdir())\<close> over the sorted entry names.\<close>

fun search_subdirs :: "fs \<Rightarrow> path \<Rightarrow> string list \<Rightarrow> string list \<Rightarrow> path option" where
  "search_subdirs f d [] cs = None"
| "search_subdirs f d (s # ss) cs =
     (if fs_is_dir f (d @ [s]) \<and> \<not> hidden s then
        (case first_candidate f (d @ [s]) cs of
           Some p \<Rightarrow> Some p
         | None \<Rightarrow> search_subdirs f d ss cs)
      else search_subdirs f d ss cs)"

fun find_in_dirs :: "fs \<Rightarrow> string list \<Rightarrow> path list \<Rightarrow> path option" where
  "find_in_dirs f cs [] = None"
| "find_in_dirs f cs (d # ds) =
     (case first_candidate f d cs of
        Some p \<Rightarrow> Some p
      | None \<Rightarrow>
          (if fs_is_dir f d then
             (case search_subdirs f d (sort (fs_iterdir f d)) cs of
                Some p \<Rightarrow> Some p
              | None \<Rightarrow> find_in_dirs f cs ds)
           else find_in_dirs f cs ds))"

definition find_model_file :: "fs \<Rightarrow> string \<Rightarrow> path list \<Rightarrow> path option" where
  "find_model_file f model_name search_dirs = find_in_dirs f (candidates model_name) search_dirs"

definition resolve_import_path :: "fs \<Rightarrow> import_entry \<Rightarrow> path \<Rightarrow> path list \<Rightarrow> path option" where
  "resolve_import_path f imp root_dir search_dirs =
     (if truthy (get_or (imp_path imp) [])
      then fs_rel f root_dir (get_or (imp_path imp) [])
      else let model_name = get_or (imp_model imp) [] in
           if \<not> truthy model_name then None
           else find_model_file f model_name (root_dir # search_dirs))"

section \<open>The resolved graph\<close>

record issue =
  severity :: string
  code :: string
  message :: string
  issue_path :: string

text \<open>
  The dictionaries of a \<^verbatim>\<open>ResolvedModel\<close> are association lists in insertion order with
  distinct keys: \<open>AList.update\<close> overwrites the value of a key that is present, in place,
  and appends a new key, as assignment to a Python \<^verbatim>\<open>dict\<close> does.
\<close>

record resolved =
  root_model :: model_doc
  imported_models :: "(string \<times> model_doc) list"
  import_graph :: "(string \<times> string list) list"
  file_map :: "(string \<times> path) list"
  issues :: "issue list"

definition new_resolved :: resolved where
  "new_resolved = \<lparr>root_model = empty_doc, imported_models = [], import_graph = [],
     file_map = [], issues = []\<rparr>"

definition add_issue :: "issue \<Rightarrow> resolved \<Rightarrow> resolved" where
  "add_issue i r = r\<lparr>issues := issues r @ [i]\<rparr>"

text \<open>Decimal rendering of a number and the apostrophe, for the message texts.\<close>

function str_nat :: "nat \<Rightarrow> string" where
  "str_nat n =
     (if n < 10 then [char_of (48 + n)] else str_nat (n div 10) @ [char_of (48 + n mod 10)])"
  by pat_completeness auto
termination
  by (relation "measure id") auto

definition sq :: string where
  "sq = [char_of (39 :: nat)]"

definition depth_exceeded :: "nat \<Rightarrow> issue" where
  "depth_exceeded max_depth = \<lparr>severity = ''error'', code = ''IMPORT_DEPTH_EXCEEDED'',
     message = ''Import depth exceeded '' @ str_nat max_depth @ ''. Possible circular dependency.'',
     issue_path = ''/model/imports''\<rparr>"

definition invalid_import :: issue where
  "invalid_import = \<lparr>severity = ''error'', code = ''INVALID_IMPORT'',
     message = ''Import entry missing '' @ sq @ ''model'' @ sq @ '' field.'',
     issue_path = ''/model/imports''\<rparr>"

definition import_not_found :: "string \<Rightarrow> issue" where
  "import_not_found imp_model_name = \<lparr>severity = ''error'', code = ''IMPORT_NOT_FOUND'',
     message = ''Cannot find model file for import '' @ sq @ imp_model_name @ sq @ ''.'',
     issue_path = ''/model/imports''\<rparr>"

definition import_load_failed :: "string \<Rightarrow> string \<Rightarrow> issue" where
  "import_load_failed imp_model_name exc = \<lparr>severity = ''error'', code = ''IMPORT_LOAD_FAILED'',
     message = ''Failed to load imported model '' @ sq @ imp_model_name @ sq @ '': '' @ exc,
     issue_path = ''/model/imports''\<rparr>"

definition import_name_mismatch :: "string \<Rightarrow> string \<Rightarrow> issue" where
  "import_name_mismatch imp_model_name actual_name = \<lparr>severity = ''warn'',
     code = ''IMPORT_NAME_MISMATCH'',
     message = ''Import references '' @ sq @ imp_model_name @ sq
        @ '' but file declares model.name='' @ sq @ actual_name @ sq @ ''.'',
     issue_path = ''/model/imports''\<rparr>"

definition import_entity_not_found :: "string \<Rightarrow> string \<Rightarrow> string \<Rightarrow> issue" where
  "import_entity_not_found alias requested imp_model_name = \<lparr>severity = ''error'',
     code = ''IMPORT_ENTITY_NOT_FOUND'',
     message = ''Import '' @ sq @ alias @ sq @ '' requests entity '' @ sq @ requested @ sq
        @ '' which does not exist in '' @ sq @ imp_model_name @ sq @ ''.'',
     issue_path = ''/model/imports''\<rparr>"

definition root_load_failed :: "string \<Rightarrow> issue" where
  "root_load_failed exc = \<lparr>severity = ''error'', code = ''ROOT_LOAD_FAILED'',
     message = ''Failed to load root model: '' @ exc, issue_path = ''/''\<rparr>"

definition circular_import :: issue where
  "circular_import = \<lparr>severity = ''error'', code = ''CIRCULAR_IMPORT'',
     message = ''Circular import detected in model dependency graph.'',
     issue_path = ''/model/imports''\<rparr>"

definition duplicate_entity :: "string \<Rightarrow> string \<Rightarrow> string \<Rightarrow> string \<Rightarrow> issue" where
  "duplicate_entity ename owner model_name alias = \<lparr>severity = ''warn'',
     code = ''DUPLICATE_CROSS_MODEL_ENTITY'',
     message = ''Entity '' @ sq @ ename @ sq @ '' exists in both '' @ sq @ owner @ sq
        @ '' and '' @ sq @ model_name @ sq @ ''. Use alias '' @ sq @ alias @ sq
        @ '' to disambiguate.'',
     issue_path = ''/model/imports''\<rparr>"

section \<open>Resolving imports\<close>

text \<open>
  The state of one resolution: the cache \<^verbatim>\<open>loaded_models\<close> (model name to parsed
  document), the \<^verbatim>\<open>ResolvedModel\<close> under construction, and a log of every call of
  \<^verbatim>\<open>load_yaml_model\<close> in the order the calls are made.  The log is the only addition to
  the source's state: it records the effect "this file was read and parsed", with the import
  name that asked for it (\<open>None\<close> for the root document).
\<close>

record rstate =
  loaded_models :: "(string \<times> model_doc) list"
  result :: resolved
  load_log :: "(string option \<times> path) list"

definition st_issue :: "issue \<Rightarrow> rstate \<Rightarrow> rstate" where
  "st_issue i st = st\<lparr>result := add_issue i (result st)\<rparr>"

definition log_load :: "string option \<Rightarrow> path \<Rightarrow> rstate \<Rightarrow> rstate" where
  "log_load n p st = st\<lparr>load_log := load_log st @ [(n, p)]\<rparr>"

text \<open>
  \<^verbatim>\<open>if model_name not in result.import_graph: result.import_graph[model_name] = []\<close>
  followed by \<^verbatim>\<open>result.import_graph[model_name].append(imp_model_name)\<close>.
\<close>

definition track_edge :: "string \<Rightarrow> string \<Rightarrow> rstate \<Rightarrow> rstate" where
  "track_edge model_name imp_model_name st =
     st\<lparr>result := (result st)\<lparr>import_graph :=
        AList.update model_name
          (get_or (map_of (import_graph (result st)) model_name) [] @ [imp_model_name])
          (import_graph (result st))\<rparr>\<rparr>"

text \<open>
  After a successful load: the name-mismatch warning, then
  \<^verbatim>\<open>loaded_models[imp_model_name] = model_data\<close> and
  \<^verbatim>\<open>result.file_map[imp_model_name] = str(file_path)\<close>.
\<close>

definition cache_model :: "string \<Rightarrow> path \<Rightarrow> model_doc \<Rightarrow> rstate \<Rightarrow> rstate" where
  "cache_model imp_model_name file_path model_data st =
     (let actual_name = get_or (doc_name model_data) [];
          st1 = (if truthy actual_name \<and> actual_name \<noteq> imp_model_name
                 then st_issue (import_name_mismatch imp_model_name actual_name) st else st)
      in st1\<lparr>loaded_models := AList.update imp_model_name model_data (loaded_models st1),
             result := (result st1)\<lparr>file_map :=
               AList.update imp_model_name file_path (file_map (result st1))\<rparr>\<rparr>)"

text \<open>
  The tail of the loop body, "Apply entity filter if specified".  A filter that is absent or
  the empty list is falsy: the whole model is exposed under the alias.
\<close>

definition filter_issues :: "string \<Rightarrow> string \<Rightarrow> model_doc \<Rightarrow> string list \<Rightarrow> issue list" where
  "filter_issues alias imp_model_name model_data entity_filter =
     map (\<lambda>requested. import_entity_not_found alias requested imp_model_name)
       (filter (\<lambda>requested.
           requested \<notin> set (map (\<lambda>e. get_or (ent_name e) []) (doc_entities model_data)))
         entity_filter)"

definition filtered_copy :: "model_doc \<Rightarrow> string list \<Rightarrow> model_doc" where
  "filtered_copy model_data entity_filter =
     model_data\<lparr>doc_entities :=
       filter (\<lambda>e. get_or (ent_name e) [] \<in> set entity_filter) (doc_entities model_data)\<rparr>"

definition expose :: "string \<Rightarrow> string \<Rightarrow> string list option \<Rightarrow> model_doc \<Rightarrow> rstate \<Rightarrow> rstate" where
  "expose alias imp_model_name entity_filter model_data st =
     (case entity_filter of
        Some (x # xs) \<Rightarrow>
          st\<lparr>result := (result st)\<lparr>
               issues := issues (result st)
                 @ filter_issues alias imp_model_name model_data (x # xs),
               imported_models := AList.update alias (filtered_copy model_data (x # xs))
                 (imported_models (result st))\<rparr>\<rparr>
      | _ \<Rightarrow>
          st\<lparr>result := (result st)\<lparr>
               imported_models := AList.update alias model_data (imported_models (result st))\<rparr>\<rparr>)"

text \<open>
  \<^verbatim>\<open>_resolve_imports_recursive\<close>: the depth check on entry, then the loop over the import
  entries.  Each \<^verbatim>\<open>continue\<close> of the source goes on with the remaining entries from the
  state reached so far.
\<close>

function resolve_imports_recursive ::
    "fs \<Rightarrow> string \<Rightarrow> import_entry list \<Rightarrow> path \<Rightarrow> path list \<Rightarrow> rstate \<Rightarrow> nat \<Rightarrow> nat \<Rightarrow> rstate"
  and resolve_imports_loop ::
    "fs \<Rightarrow> string \<Rightarrow> import_entry list \<Rightarrow> path \<Rightarrow> path list \<Rightarrow> rstate \<Rightarrow> nat \<Rightarrow> nat \<Rightarrow> rstate"
where
  "resolve_imports_recursive f model_name imports root_dir search_dirs st depth max_depth =
     (if depth > max_depth then st_issue (depth_exceeded max_depth) st
      else resolve_imports_loop f model_name imports root_dir search_dirs st depth max_depth)"
| "resolve_imports_loop f model_name [] root_dir search_dirs st depth max_depth = st"
| "resolve_imports_loop f model_name (imp # imports) root_dir search_dirs st depth max_depth =
     (let imp_model_name = get_or (imp_model imp) [];
          alias = get_or (imp_alias imp) imp_model_name;
          entity_filter = imp_entities imp
      in
      if \<not> truthy imp_model_name then
        resolve_imports_loop f model_name imports root_dir search_dirs
          (st_issue invalid_import st) depth max_depth
      else
        let st1 = track_edge model_name imp_model_name st in
        case map_of (loaded_models st1) imp_model_name of
          Some model_data \<Rightarrow>
            resolve_imports_loop f model_name imports root_dir search_dirs
              (expose alias imp_model_name entity_filter model_data st1) depth max_depth
        | None \<Rightarrow>
            (case resolve_import_path f imp root_dir search_dirs of
               None \<Rightarrow>
                 resolve_imports_loop f model_name imports root_dir search_dirs
                   (st_issue (import_not_found imp_model_name) st1) depth max_depth
             | Some file_path \<Rightarrow>
                 (case fs_load f file_path of
                    Inl exc \<Rightarrow>
                      resolve_imports_loop f model_name imports root_dir search_dirs
                        (st_issue (import_load_failed imp_model_name exc)
                           (log_load (Some imp_model_name) file_path st1)) depth max_depth
                  | Inr model_data \<Rightarrow>
                      resolve_imports_loop f model_name imports root_dir search_dirs
                        (expose alias imp_model_name entity_filter model_data
                           (let st2 = cache_model imp_model_name file_path model_data
                                        (log_load (Some imp_model_name) file_path st1)
                            in if doc_imports model_data \<noteq> [] then
                                 resolve_imports_recursive f imp_model_name
                                   (doc_imports model_data) (parent file_path) search_dirs st2
                                   (depth + 1) max_depth
                               else st2))
                        depth max_depth)))"
  by pat_completeness auto
termination
  by (relation "measures [
        (\<lambda>x. case x of
            Inl (f, mn, imps, rd, sd, st, depth, md) \<Rightarrow> md + 1 - depth
          | Inr (f, mn, imps, rd, sd, st, depth, md) \<Rightarrow> md + 1 - depth),
        (\<lambda>x. case x of
            Inl (f, mn, imps, rd, sd, st, depth, md) \<Rightarrow>
              (if depth > md then 0 else length imps + 1)
          | Inr (f, mn, imps, rd, sd, st, depth, md) \<Rightarrow> length imps)]") auto

section \<open>Cycle detection\<close>

text \<open>
  \<^verbatim>\<open>_detect_cycle\<close> is a depth-first search that mutates the two sets \<^verbatim>\<open>visiting\<close> and
  \<^verbatim>\<open>visited\<close>.  The model threads both sets through every call and returns them next to the
  answer.  \<open>detect_cycle_deps\<close> is the loop \<^verbatim>\<open>for dep in import_graph.get(model_name, [])\<close>.
\<close>

type_synonym graph = "(string \<times> string list) list"

definition graph_nodes :: "graph \<Rightarrow> string set" where
  "graph_nodes g = set (map fst g) \<union> \<Union> (set (map (set \<circ> snd) g))"

function (domintros) detect_cycle ::
    "string \<Rightarrow> graph \<Rightarrow> string set \<Rightarrow> string set \<Rightarrow> bool \<times> string set \<times> string set"
  and detect_cycle_deps ::
    "string list \<Rightarrow> graph \<Rightarrow> string set \<Rightarrow> string set \<Rightarrow> bool \<times> string set \<times> string set"
where
  "detect_cycle model_name g visiting visited =
     (if model_name \<in> visiting then (True, visiting, visited)
      else if model_name \<in> visited then (False, visiting, visited)
      else case detect_cycle_deps (get_or (map_of g model_name) []) g
                  (insert model_name visiting) visited of
             (True, visiting', visited') \<Rightarrow> (True, visiting', visited')
           | (False, visiting', visited') \<Rightarrow>
               (False, visiting' - {model_name}, insert model_name visited'))"
| "detect_cycle_deps [] g visiting visited = (False, visiting, visited)"
| "detect_cycle_deps (dep # deps) g visiting visited =
     (case detect_cycle dep g visiting visited of
        (True, visiting', visited') \<Rightarrow> (True, visiting', visited')
      | (False, visiting', visited') \<Rightarrow> detect_cycle_deps deps g visiting' visited')"
  by pat_completeness auto

text \<open>
  The search terminates because every descent adds a node of the (finite) graph to
  \<^verbatim>\<open>visiting\<close>; the loop continues from the sets its previous iteration left behind, so
  the argument needs that a call never shrinks \<^verbatim>\<open>visiting\<close> below what it was given.
\<close>

lemma visiting_grows:
  "detect_cycle_detect_cycle_deps_dom (Inl (n, g, vg, vd)) \<Longrightarrow>
     vg \<subseteq> fst (snd (detect_cycle n g vg vd))"
  "detect_cycle_detect_cycle_deps_dom (Inr (ds, g, vg, vd)) \<Longrightarrow>
     vg \<subseteq> fst (snd (detect_cycle_deps ds g vg vd))"
proof (induction n g vg vd and ds g vg vd rule: detect_cycle_detect_cycle_deps.pinduct)
  case (1 n g vg vd)
  then show ?case
    by (auto simp: detect_cycle.psimps split: prod.splits bool.splits)
next
  case (2 g vg vd)
  then show ?case by (simp add: detect_cycle_deps.psimps)
next
  case (3 d ds g vg vd)
  show ?case
  proof (cases "detect_cycle d g vg vd")
    case (fields r a b)
    show ?thesis
    proof (cases r)
      case True
      with fields 3 show ?thesis by (simp add: detect_cycle_deps.psimps)
    next
      case False
      with fields 3(3)[of r "(a, b)" a b]
      have "a \<subseteq> fst (snd (detect_cycle_deps ds g a b))" by simp
      moreover from fields 3(2) have "vg \<subseteq> a" by simp
      ultimately show ?thesis
        using fields False 3(1) by (simp add: detect_cycle_deps.psimps)
    qed
  qed
qed

lemma graph_nodes_deps: "set (get_or (map_of g n) []) \<subseteq> graph_nodes g"
proof (cases "map_of g n")
  case None
  then show ?thesis by (simp add: get_or_def)
next
  case (Some ds)
  then have "(n, ds) \<in> set g" by (rule map_of_SomeD)
  then show ?thesis using Some by (force simp: graph_nodes_def get_or_def)
qed

lemma finite_graph_nodes: "finite (graph_nodes g)"
  by (simp add: graph_nodes_def)

termination detect_cycle
proof (relation "measures [
        (\<lambda>x. case x of
            Inl (n, g, vg, vd) \<Rightarrow> card ((insert n (graph_nodes g)) - vg)
          | Inr (ds, g, vg, vd) \<Rightarrow> card ((graph_nodes g \<union> set ds) - vg)),
        (\<lambda>x. case x of
            Inl (n, g, vg, vd) \<Rightarrow> 0
          | Inr (ds, g, vg, vd) \<Rightarrow> length ds + 1)]", goal_cases)
  case 1
  show ?case by simp
next
  case (2 n g vg vd)
  have eq: "graph_nodes g \<union> set (get_or (map_of g n) []) = graph_nodes g"
    using graph_nodes_deps[of g n] by auto
  have "card (graph_nodes g - insert n vg) < card (insert n (graph_nodes g) - vg)"
  proof (rule psubset_card_mono)
    show "finite (insert n (graph_nodes g) - vg)" by (simp add: finite_graph_nodes)
    show "graph_nodes g - insert n vg \<subset> insert n (graph_nodes g) - vg"
      using 2 by auto
  qed
  then show ?case by (simp add: eq)
next
  case (3 d ds g vg vd)
  have "card (insert d (graph_nodes g) - vg) \<le> card ((graph_nodes g \<union> set (d # ds)) - vg)"
    by (rule card_mono) (auto simp: finite_graph_nodes)
  then show ?case by auto
next
  case (4 d ds g vg vd x y xa ya)
  from 4 visiting_grows(1)[of d g vg vd] have sub: "vg \<subseteq> xa"
    by (metis fst_conv snd_conv)
  have "card ((graph_nodes g \<union> set ds) - xa) \<le> card ((graph_nodes g \<union> set (d # ds)) - vg)"
    using sub by (intro card_mono) (auto simp: finite_graph_nodes)
  then show ?case by auto
qed

section \<open>resolve_model\<close>

text \<open>
  The duplicate check at the end of \<^verbatim>\<open>resolve_model\<close>.  \<open>seen_root\<close> is the first loop, over
  the root's entities; \<open>seen_model\<close> is the inner loop over one imported model's entities and
  \<open>seen_imports\<close> the outer loop over \<^verbatim>\<open>result.imported_models.items()\<close>, in insertion
  order.  The pair carried through is \<^verbatim>\<open>seen_entities\<close> and the issues appended so far.
\<close>

type_synonym seen = "(string \<times> string) list"

fun seen_root :: "string \<Rightarrow> entity list \<Rightarrow> seen \<Rightarrow> seen" where
  "seen_root root_name [] sn = sn"
| "seen_root root_name (e # es) sn =
     (let ename = get_or (ent_name e) [] in
      seen_root root_name es (if truthy ename then AList.update ename root_name sn else sn))"

fun seen_model :: "string \<Rightarrow> string \<Rightarrow> entity list \<Rightarrow> seen \<times> issue list \<Rightarrow> seen \<times> issue list" where
  "seen_model alias model_name [] acc = acc"
| "seen_model alias model_name (e # es) (sn, iss) =
     (let ename = get_or (ent_name e) [] in
      seen_model alias model_name es
        (case (if truthy ename then map_of sn ename else None) of
           Some owner \<Rightarrow> (sn, iss @ [duplicate_entity ename owner model_name alias])
         | None \<Rightarrow> (if truthy ename then (AList.update ename model_name sn, iss) else (sn, iss))))"

fun seen_imports :: "(string \<times> model_doc) list \<Rightarrow> seen \<times> issue list \<Rightarrow> seen \<times> issue list" where
  "seen_imports [] acc = acc"
| "seen_imports ((alias, model) # ms) acc =
     seen_imports ms (seen_model alias (get_or (doc_name model) alias) (doc_entities model) acc)"

definition check_duplicates :: "string \<Rightarrow> resolved \<Rightarrow> resolved" where
  "check_duplicates root_name r =
     r\<lparr>issues := snd (seen_imports (imported_models r)
          (seen_root root_name (doc_entities (root_model r)) [], issues r))\<rparr>"

definition check_cycle :: "string \<Rightarrow> resolved \<Rightarrow> resolved" where
  "check_cycle root_name r =
     (if fst (detect_cycle root_name (import_graph r) {} {}) then add_issue circular_import r
      else r)"

text \<open>
  \<^verbatim>\<open>resolve_model\<close>, on the resolved root file and the resolved search directories.
  \<open>resolve_model_run\<close> also returns the cache and the log of loads.
\<close>

definition resolve_model_run :: "fs \<Rightarrow> path \<Rightarrow> path list \<Rightarrow> rstate" where
  "resolve_model_run f root_file extra_dirs =
     (let st0 = \<lparr>loaded_models = [], result = new_resolved, load_log = [(None, root_file)]\<rparr> in
      case fs_load f root_file of
        Inl exc \<Rightarrow> st_issue (root_load_failed exc) st0
      | Inr root \<Rightarrow>
          let root_name = get_or (doc_name root) ''unknown'';
              st1 = st0\<lparr>result := (result st0)\<lparr>root_model := root,
                       file_map := AList.update root_name root_file (file_map (result st0))\<rparr>\<rparr>
          in if doc_imports root = [] then st1
             else
               let st2 = st1\<lparr>result := (result st1)\<lparr>import_graph :=
                           AList.update root_name [] (import_graph (result st1))\<rparr>\<rparr>;
                   st3 = resolve_imports_recursive f root_name (doc_imports root)
                           (parent root_file) extra_dirs st2 0 10
               in st3\<lparr>result := check_duplicates root_name (check_cycle root_name (result st3))\<rparr>)"

definition resolve_model :: "fs \<Rightarrow> path \<Rightarrow> path list \<Rightarrow> resolved" where
  "resolve_model f root_file extra_dirs = result (resolve_model_run f root_file extra_dirs)"

section \<open>Views of a resolved graph\<close>

text \<open>
  An entity or relationship of a unified view is the copied item together with the
  annotations the source stores under \<^verbatim>\<open>_source_model\<close> and \<^verbatim>\<open>_import_alias\<close>.
\<close>

record uentity =
  ue_entity :: entity
  ue_source_model :: string
  ue_import_alias :: "string option"

record urelationship =
  ur_rel :: relationship
  ur_source_model :: string

definition sorted_items :: "(string \<times> 'a) list \<Rightarrow> (string \<times> 'a) list" where
  "sorted_items kvs = sort_key fst kvs"

definition unified_entities :: "resolved \<Rightarrow> uentity list" where
  "unified_entities r =
     map (\<lambda>e. \<lparr>ue_entity = e, ue_source_model = get_or (doc_name (root_model r)) ''root'',
               ue_import_alias = None\<rparr>) (doc_entities (root_model r))
     @ concat (map (\<lambda>(alias, model).
         map (\<lambda>e. \<lparr>ue_entity = e, ue_source_model = get_or (doc_name model) alias,
                   ue_import_alias = Some alias\<rparr>) (doc_entities model))
         (sorted_items (imported_models r)))"

definition unified_relationships :: "resolved \<Rightarrow> urelationship list" where
  "unified_relationships r =
     map (\<lambda>rel. \<lparr>ur_rel = rel, ur_source_model = get_or (doc_name (root_model r)) ''root''\<rparr>)
       (doc_relationships (root_model r))
     @ concat (map (\<lambda>(alias, model).
         map (\<lambda>rel. \<lparr>ur_rel = rel, ur_source_model = get_or (doc_name model) alias\<rparr>)
           (doc_relationships model))
         (sorted_items (imported_models r)))"

record model_summary =
  ms_name :: string
  ms_alias :: "string option"
  ms_file :: path
  ms_entity_count :: nat
  ms_entities :: "string list"
  ms_imports :: "string list"
  ms_is_root :: bool

record cross_rel =
  cr_name :: string
  cr_from_model :: string
  cr_to_model :: string
  cr_from :: string
  cr_to :: string
  cr_cardinality :: string

record graph_summary =
  gs_root_model :: string
  gs_model_count :: nat
  gs_total_entities :: nat
  gs_cross_model_relationships :: "cross_rel list"
  gs_models :: "model_summary list"
  gs_issues :: "issue list"

definition import_labels :: "model_doc \<Rightarrow> string list" where
  "import_labels m = map (\<lambda>imp. get_or (imp_alias imp) (get_or (imp_model imp) [])) (doc_imports m)"

definition summarise :: "resolved \<Rightarrow> string \<Rightarrow> string option \<Rightarrow> bool \<Rightarrow> model_doc \<Rightarrow> model_summary" where
  "summarise r name alias is_root m =
     \<lparr>ms_name = name, ms_alias = alias, ms_file = get_or (map_of (file_map r) name) [],
      ms_entity_count = length (doc_entities m),
      ms_entities = map (\<lambda>e. get_or (ent_name e) []) (doc_entities m),
      ms_imports = import_labels m, ms_is_root = is_root\<rparr>"

text \<open>
  The loop \<^verbatim>\<open>for e in all_entities: entity_to_model[e.get("name", "")] = ...\<close>: each
  assignment overwrites what an earlier entity of the same name stored.
\<close>

definition entity_to_model :: "uentity list \<Rightarrow> (string \<times> string) list" where
  "entity_to_model all_entities =
     foldl (\<lambda>m e. AList.update (get_or (ent_name (ue_entity e)) []) (ue_source_model e) m)
       [] all_entities"

text \<open>\<^verbatim>\<open>s.split(".")[0]\<close>: the text before the first dot.\<close>

definition before_dot :: "string \<Rightarrow> string" where
  "before_dot s = takeWhile (\<lambda>c. c \<noteq> CHR ''.'') s"

definition cross_rels :: "(string \<times> string) list \<Rightarrow> urelationship list \<Rightarrow> cross_rel list" where
  "cross_rels e2m rels =
     concat (map (\<lambda>ur.
        let rel = ur_rel ur;
            from_entity = before_dot (get_or (rel_from rel) []);
            to_entity = before_dot (get_or (rel_to rel) []);
            from_model = get_or (map_of e2m from_entity) [];
            to_model = get_or (map_of e2m to_entity) []
        in if truthy from_model \<and> truthy to_model \<and> from_model \<noteq> to_model then
             [\<lparr>cr_name = get_or (rel_name rel) [], cr_from_model = from_model,
               cr_to_model = to_model, cr_from = get_or (rel_from rel) [],
               cr_to = get_or (rel_to rel) [],
               cr_cardinality = get_or (rel_cardinality rel) []\<rparr>]
           else []) rels)"

definition to_graph_summary :: "resolved \<Rightarrow> graph_summary" where
  "to_graph_summary r =
     (let root_name = get_or (doc_name (root_model r)) ''unknown'';
          models = summarise r root_name None True (root_model r)
            # map (\<lambda>(alias, model).
                summarise r (get_or (doc_name model) alias) (Some alias) False model)
              (sorted_items (imported_models r))
      in \<lparr>gs_root_model = root_name, gs_model_count = length models,
          gs_total_entities = sum_list (map ms_entity_count models),
          gs_cross_model_relationships =
            cross_rels (entity_to_model (unified_entities r)) (unified_relationships r),
          gs_models = models, gs_issues = issues r\<rparr>)"

section \<open>The search order of an import without a path\<close>

text \<open>
  The paths one search directory contributes, in the order \<^verbatim>\<open>_find_model_file\<close> tries
  them: the two candidate names in the directory itself and then, when it is a directory,
  the candidates in each of its subdirectories that is not hidden, by ascending name.
\<close>

definition dir_order :: "fs \<Rightarrow> string list \<Rightarrow> path \<Rightarrow> path list" where
  "dir_order f cs d =
     map (\<lambda>c. d @ [c]) cs
     @ (if fs_is_dir f d then
          concat (map (\<lambda>s. map (\<lambda>c. d @ [s] @ [c]) cs)
            (filter (\<lambda>s. fs_is_dir f (d @ [s]) \<and> \<not> hidden s) (sort (fs_iterdir f d))))
        else [])"

definition search_order :: "fs \<Rightarrow> string \<Rightarrow> path list \<Rightarrow> path list" where
  "search_order f model_name dirs = concat (map (dir_order f (candidates model_name)) dirs)"

text \<open>
  The order in the words of the specification: every searched directory itself first, in the
  order given, and only then the immediate subdirectories of every searched directory.
\<close>

definition spec_search_order :: "fs \<Rightarrow> string \<Rightarrow> path list \<Rightarrow> path list" where
  "spec_search_order f model_name dirs =
     concat (map (\<lambda>d. map (\<lambda>c. d @ [c]) (candidates model_name)) dirs)
     @ concat (map (\<lambda>d.
         concat (map (\<lambda>s. map (\<lambda>c. d @ [s] @ [c]) (candidates model_name))
           (filter (\<lambda>s. fs_is_dir f (d @ [s])) (sort (fs_iterdir f d))))) dirs)"

text \<open>
  A project whose declaring directory \<^verbatim>\<open>proj\<close> holds \<^verbatim>\<open>sub/m.model.yaml\<close> and whose search
  directory \<^verbatim>\<open>lib\<close> holds \<^verbatim>\<open>m.model.yaml\<close> at its top level.
\<close>

definition fs_two_places :: fs where
  "fs_two_places = \<lparr>
     fs_exists = (\<lambda>p. p \<in> {[''proj''], [''proj'', ''sub''], [''proj'', ''sub'', ''m.model.yaml''],
                           [''lib''], [''lib'', ''m.model.yaml'']}),
     fs_is_dir = (\<lambda>p. p \<in> {[''proj''], [''proj'', ''sub''], [''lib'']}),
     fs_iterdir = (\<lambda>p. if p = [''proj''] then [''sub'']
                        else if p = [''lib''] then [''m.model.yaml'']
                        else if p = [''proj'', ''sub''] then [''m.model.yaml''] else []),
     fs_rel = (\<lambda>d s. None),
     fs_load = (\<lambda>p. Inl ''unreadable'')\<rparr>"

definition import_of :: "string \<Rightarrow> import_entry" where
  "import_of n = \<lparr>imp_model = Some n, imp_alias = None, imp_path = None, imp_entities = None\<rparr>"

lemma find_append_opt:
  "find P (xs @ ys) = (case find P xs of Some x \<Rightarrow> Some x | None \<Rightarrow> find P ys)"
  by (induction xs) auto

lemma first_candidate_find:
  "first_candidate f d cs = find (fs_exists f) (map (\<lambda>c. d @ [c]) cs)"
  by (induction cs) auto

lemma search_subdirs_find:
  "search_subdirs f d ss cs =
     find (fs_exists f) (concat (map (\<lambda>s. map (\<lambda>c. d @ [s] @ [c]) cs)
        (filter (\<lambda>s. fs_is_dir f (d @ [s]) \<and> \<not> hidden s) ss)))"
  by (induction ss) (auto simp: find_append_opt first_candidate_find split: option.splits)

lemma find_in_dirs_find:
  "find_in_dirs f cs ds = find (fs_exists f) (concat (map (dir_order f cs) ds))"
  by (induction ds)
     (auto simp: find_append_opt first_candidate_find search_subdirs_find dir_order_def
           split: option.splits)

text \<open>
  C5, as the code has it.  For an import without an explicit path and with a model name, the
  file is the first existing path of \<open>search_order\<close> over the declaring model's directory
  followed by the caller's search directories: each directory is exhausted (its own two
  candidates, then its non-hidden subdirectories by ascending name) before the next
  directory is looked at.
\<close>

theorem import_search_order:
  assumes "\<not> truthy (get_or (imp_path imp) [])" and "truthy (get_or (imp_model imp) [])"
  shows "resolve_import_path f imp root_dir search_dirs =
           find (fs_exists f)
             (search_order f (get_or (imp_model imp) []) (root_dir # search_dirs))"
  using assms
  by (simp add: resolve_import_path_def find_model_file_def search_order_def find_in_dirs_find
      Let_def)

theorem import_search_order_witness:
  "\<not> truthy (get_or (imp_path (import_of ''m'')) [])
   \<and> truthy (get_or (imp_model (import_of ''m'')) [])
   \<and> resolve_import_path fs_two_places (import_of ''m'') [''proj''] [[''lib'']] =
       find (fs_exists fs_two_places) (search_order fs_two_places ''m'' [[''proj''], [''lib'']])
   \<and> resolve_import_path fs_two_places (import_of ''m'') [''proj''] [[''lib'']] =
       Some [''proj'', ''sub'', ''m.model.yaml'']"
proof -
  have a: "\<not> truthy (get_or (imp_path (import_of ''m'')) [])"
    by (simp add: import_of_def get_or_def truthy_def)
  have b: "truthy (get_or (imp_model (import_of ''m'')) [])"
    by (simp add: import_of_def get_or_def truthy_def)
  have c: "get_or (imp_model (import_of ''m'')) [] = ''m''"
    by (simp add: import_of_def get_or_def)
  have d: "find (fs_exists fs_two_places) (search_order fs_two_places ''m'' [[''proj''], [''lib'']])
             = Some [''proj'', ''sub'', ''m.model.yaml'']"
    by (simp add: search_order_def dir_order_def candidates_def fs_two_places_def hidden_def)
  show ?thesis
    using a b d import_search_order [OF a b, of fs_two_places "[''proj'']" "[[''lib'']]"]
    by (simp add: c)
qed

text \<open>
  C5, as the specification words it, fails: with a match in a subdirectory of the declaring
  directory and a match at the top level of a search directory, the code returns the
  former, while the order "all directories, then all subdirectories" selects the latter.
\<close>

theorem import_search_order_counterexample:
  "resolve_import_path fs_two_places (import_of ''m'') [''proj''] [[''lib'']]
     = Some [''proj'', ''sub'', ''m.model.yaml'']
   \<and> find (fs_exists fs_two_places) (spec_search_order fs_two_places ''m'' [[''proj''], [''lib'']])
     = Some [''lib'', ''m.model.yaml'']
   \<and> resolve_import_path fs_two_places (import_of ''m'') [''proj''] [[''lib'']]
     \<noteq> find (fs_exists fs_two_places)
         (spec_search_order fs_two_places ''m'' [[''proj''], [''lib'']])"
  by (simp add: resolve_import_path_def find_model_file_def fs_two_places_def candidates_def
      get_or_def truthy_def hidden_def spec_search_order_def import_of_def)

section \<open>Failure to load the root document\<close>

definition fs_unreadable :: fs where
  "fs_unreadable = \<lparr>fs_exists = (\<lambda>p. False), fs_is_dir = (\<lambda>p. False), fs_iterdir = (\<lambda>p. []),
     fs_rel = (\<lambda>d s. None), fs_load = (\<lambda>p. Inl ''No such file'')\<rparr>"

text \<open>
  C4.  When \<^verbatim>\<open>load_yaml_model\<close> raises on the root file, the result holds exactly one
  issue, of severity \<^verbatim>\<open>error\<close> (the highest severity an issue has) and code
  \<^verbatim>\<open>ROOT_LOAD_FAILED\<close>, and nothing else: the root model is the empty mapping and the
  imported models, the import graph and the file map are empty.
\<close>

theorem root_load_failure:
  assumes "fs_load f root_file = Inl exc"
  shows "issues (resolve_model f root_file extra_dirs) = [root_load_failed exc]
       \<and> severity (root_load_failed exc) = ''error''
       \<and> code (root_load_failed exc) = ''ROOT_LOAD_FAILED''
       \<and> root_model (resolve_model f root_file extra_dirs) = empty_doc
       \<and> imported_models (resolve_model f root_file extra_dirs) = []
       \<and> import_graph (resolve_model f root_file extra_dirs) = []
       \<and> file_map (resolve_model f root_file extra_dirs) = []"
  using assms
  by (simp add: resolve_model_def resolve_model_run_def st_issue_def add_issue_def
      new_resolved_def root_load_failed_def)

theorem root_load_failure_witness:
  "fs_load fs_unreadable [''a.model.yaml''] = Inl ''No such file''
   \<and> issues (resolve_model fs_unreadable [''a.model.yaml''] []) = [root_load_failed ''No such file'']
   \<and> root_model (resolve_model fs_unreadable [''a.model.yaml''] []) = empty_doc
   \<and> imported_models (resolve_model fs_unreadable [''a.model.yaml''] []) = []
   \<and> import_graph (resolve_model fs_unreadable [''a.model.yaml''] []) = []
   \<and> file_map (resolve_model fs_unreadable [''a.model.yaml''] []) = []"
proof -
  have h: "fs_load fs_unreadable [''a.model.yaml''] = Inl ''No such file''"
    by (simp add: fs_unreadable_def)
  show ?thesis
    using h root_load_failure [OF h, of "[]"] by simp
qed

section \<open>The multi-model starter project\<close>

text \<open>
  The two documents \<^verbatim>\<open>MULTI_MODEL_SHARED\<close> and \<^verbatim>\<open>MULTI_MODEL_ORDERS\<close> of the command line's
  \<^verbatim>\<open>init --multi-model\<close>, as the loader parses them (the keys the resolver reads), in the
  directory layout \<^verbatim>\<open>cmd_init\<close> creates.
\<close>

definition shared_doc :: model_doc where
  "shared_doc = \<lparr>doc_name = Some ''shared_dimensions'', doc_imports = [],
     doc_entities = [\<lparr>ent_name = Some ''Customer'', ent_type = Some ''table''\<rparr>],
     doc_relationships = []\<rparr>"

definition orders_doc :: model_doc where
  "orders_doc = \<lparr>doc_name = Some ''orders'',
     doc_imports = [\<lparr>imp_model = Some ''shared_dimensions'', imp_alias = Some ''shared'',
       imp_path = None, imp_entities = Some [''Customer'']\<rparr>],
     doc_entities = [\<lparr>ent_name = Some ''Order'', ent_type = Some ''table''\<rparr>],
     doc_relationships = [\<lparr>rel_name = Some ''order_customer'',
       rel_from = Some ''Order.customer_id'', rel_to = Some ''Customer.customer_id'',
       rel_cardinality = Some ''many_to_one''\<rparr>]\<rparr>"

definition orders_file :: path where
  "orders_file = [''models'', ''orders'', ''orders.model.yaml'']"

definition shared_file :: path where
  "shared_file = [''models'', ''shared'', ''shared_dimensions.model.yaml'']"

definition fs_multi :: fs where
  "fs_multi = \<lparr>
     fs_exists = (\<lambda>p. p \<in> {[''models''], [''models'', ''orders''], [''models'', ''shared''],
                           orders_file, shared_file}),
     fs_is_dir = (\<lambda>p. p \<in> {[''models''], [''models'', ''orders''], [''models'', ''shared'']}),
     fs_iterdir = (\<lambda>p. if p = [''models''] then [''shared'', ''orders'']
                        else if p = [''models'', ''orders''] then [''orders.model.yaml'']
                        else if p = [''models'', ''shared''] then [''shared_dimensions.model.yaml'']
                        else []),
     fs_rel = (\<lambda>d s. None),
     fs_load = (\<lambda>p. if p = orders_file then Inr orders_doc
                     else if p = shared_file then Inr shared_doc
                     else Inl ''No such file'')\<rparr>"

definition multi_dirs :: "path list" where
  "multi_dirs = [[''models'', ''shared''], [''models'', ''orders'']]"

lemmas resolve_eval =
  resolve_model_def resolve_model_run_def get_or_def truthy_def new_resolved_def empty_doc_def
  track_edge_def cache_model_def expose_def filter_issues_def filtered_copy_def log_load_def
  st_issue_def add_issue_def resolve_import_path_def find_model_file_def candidates_def
  hidden_def parent_def check_cycle_def check_duplicates_def Let_def

lemma resolve_orders:
  "resolve_model fs_multi orders_file multi_dirs =
     \<lparr>root_model = orders_doc, imported_models = [(''shared'', shared_doc)],
      import_graph = [(''orders'', [''shared_dimensions''])],
      file_map = [(''orders'', orders_file), (''shared_dimensions'', shared_file)],
      issues = []\<rparr>"
  by (simp add: resolve_eval fs_multi_def multi_dirs_def orders_file_def shared_file_def
      orders_doc_def shared_doc_def)

lemmas summary_eval =
  to_graph_summary_def summarise_def import_labels_def sorted_items_def unified_entities_def
  unified_relationships_def entity_to_model_def cross_rels_def before_dot_def get_or_def
  truthy_def Let_def

text \<open>
  C2, as the code has it.  Resolving \<^verbatim>\<open>orders\<close> gives a summary with two models, two
  entities and one cross-model relationship, which runs from the model that owns the
  \<^verbatim>\<open>from\<close> entity \<^verbatim>\<open>Order\<close>, the root \<^verbatim>\<open>orders\<close>, to the model that owns the \<^verbatim>\<open>to\<close> entity
  \<^verbatim>\<open>Customer\<close>, the import \<^verbatim>\<open>shared_dimensions\<close>.
\<close>

theorem orders_graph_summary:
  "gs_model_count (to_graph_summary (resolve_model fs_multi orders_file multi_dirs)) = 2
   \<and> gs_total_entities (to_graph_summary (resolve_model fs_multi orders_file multi_dirs)) = 2
   \<and> gs_cross_model_relationships
        (to_graph_summary (resolve_model fs_multi orders_file multi_dirs)) =
       [\<lparr>cr_name = ''order_customer'', cr_from_model = ''orders'',
         cr_to_model = ''shared_dimensions'', cr_from = ''Order.customer_id'',
         cr_to = ''Customer.customer_id'', cr_cardinality = ''many_to_one''\<rparr>]"
  by (simp add: resolve_orders summary_eval orders_doc_def shared_doc_def)

text \<open>
  C2, as the specification words it, fails: the single cross-model entry does not have
  \<^verbatim>\<open>from_model = "shared_dimensions"\<close> and \<^verbatim>\<open>to_model = "orders"\<close>.
\<close>

theorem orders_graph_summary_counterexample:
  "length (gs_cross_model_relationships
      (to_graph_summary (resolve_model fs_multi orders_file multi_dirs))) = 1
   \<and> cr_from_model (hd (gs_cross_model_relationships
      (to_graph_summary (resolve_model fs_multi orders_file multi_dirs)))) \<noteq> ''shared_dimensions''
   \<and> cr_to_model (hd (gs_cross_model_relationships
      (to_graph_summary (resolve_model fs_multi orders_file multi_dirs)))) \<noteq> ''orders''"
  by (simp add: resolve_orders summary_eval orders_doc_def shared_doc_def)

section \<open>Entity filters\<close>

definition ename :: "entity \<Rightarrow> string" where
  "ename e = get_or (ent_name e) []"

definition st_empty :: rstate where
  "st_empty = \<lparr>loaded_models = [], result = new_resolved, load_log = []\<rparr>"

text \<open>The imported model as seen from the root under an alias: \<^verbatim>\<open>imported_models[alias]\<close>.\<close>

definition exposed :: "rstate \<Rightarrow> string \<Rightarrow> model_doc option" where
  "exposed st alias = map_of (imported_models (result st)) alias"

lemma map_of_update_same: "map_of (AList.update k v al) k = Some v"
  by (simp add: update_conv')

text \<open>
  C7, as the code has it.  For an import whose \<^verbatim>\<open>entities\<close> filter is a non-empty list, the
  model stored under the alias is the parsed model with its entity list cut down to the
  entities whose name is requested; the names it exposes are exactly the requested names
  that exist in the target; one \<^verbatim>\<open>IMPORT_ENTITY_NOT_FOUND\<close> issue is appended for each entry
  of the filter that names no entity of the target, in the filter's order; and the cache of
  parsed models is left as it was.
\<close>

theorem entity_filter_exposes:
  assumes "entity_filter \<noteq> []"
  shows "exposed (expose alias imp_model_name (Some entity_filter) model_data st) alias
           = Some (filtered_copy model_data entity_filter)
       \<and> set (map ename (doc_entities (filtered_copy model_data entity_filter)))
           = set entity_filter \<inter> set (map ename (doc_entities model_data))
       \<and> doc_entities (filtered_copy model_data entity_filter)
           = filter (\<lambda>e. ename e \<in> set entity_filter) (doc_entities model_data)
       \<and> issues (result (expose alias imp_model_name (Some entity_filter) model_data st))
           = issues (result st)
             @ map (\<lambda>requested. import_entity_not_found alias requested imp_model_name)
                 (filter (\<lambda>requested. requested \<notin> set (map ename (doc_entities model_data)))
                    entity_filter)
       \<and> loaded_models (expose alias imp_model_name (Some entity_filter) model_data st)
           = loaded_models st"
proof -
  obtain x xs where fl: "entity_filter = x # xs"
    using assms by (cases entity_filter) auto
  have names: "set (map ename (doc_entities (filtered_copy model_data entity_filter)))
           = set entity_filter \<inter> set (map ename (doc_entities model_data))"
    by (auto simp: filtered_copy_def ename_def)
  show ?thesis
    unfolding names
    by (simp add: fl expose_def exposed_def map_of_update_same filter_issues_def
        filtered_copy_def ename_def)
qed

theorem entity_filter_exposes_witness:
  "[''Customer'', ''Ghost''] \<noteq> []
   \<and> exposed (expose ''shared'' ''shared_dimensions'' (Some [''Customer'', ''Ghost''])
        shared_doc st_empty) ''shared'' = Some shared_doc
   \<and> issues (result (expose ''shared'' ''shared_dimensions'' (Some [''Customer'', ''Ghost''])
        shared_doc st_empty))
       = [import_entity_not_found ''shared'' ''Ghost'' ''shared_dimensions'']
   \<and> loaded_models (expose ''shared'' ''shared_dimensions'' (Some [''Customer'', ''Ghost''])
        shared_doc st_empty) = []"
proof -
  have h: "[''Customer'', ''Ghost''] \<noteq> ([] :: string list)" by simp
  have c: "filtered_copy shared_doc [''Customer'', ''Ghost''] = shared_doc"
    by (simp add: filtered_copy_def shared_doc_def get_or_def)
  have n: "map ename (doc_entities shared_doc) = [''Customer'']"
    by (simp add: shared_doc_def ename_def get_or_def)
  have e: "issues (result st_empty) = []" "loaded_models st_empty = []"
    by (simp_all add: st_empty_def new_resolved_def)
  show ?thesis
    using entity_filter_exposes [OF h, of "''shared''" "''shared_dimensions''" shared_doc st_empty]
    by (simp add: c n e)
qed

text \<open>
  C7, for every import that carries a filter, fails on the empty filter: \<^verbatim>\<open>entities: []\<close>
  requests no entity, yet the whole target model, with its entity \<^verbatim>\<open>Customer\<close>, is exposed.
\<close>

theorem entity_filter_empty_counterexample:
  "exposed (expose ''shared'' ''shared_dimensions'' (Some []) shared_doc st_empty) ''shared''
     = Some shared_doc
   \<and> map ename (doc_entities shared_doc) = [''Customer'']"
  by (simp add: expose_def exposed_def st_empty_def new_resolved_def shared_doc_def ename_def
      get_or_def)

section \<open>Which model owns an entity name\<close>













section \<open>Properties of the import walk\<close>

text \<open>
  One iteration of the loop of \<^verbatim>\<open>_resolve_imports_recursive\<close>, as a function from the state
  before the import entry to the state after it; the loop is the fold of this step.
\<close>

definition import_step ::
    "fs \<Rightarrow> string \<Rightarrow> import_entry \<Rightarrow> path \<Rightarrow> path list \<Rightarrow> rstate \<Rightarrow> nat \<Rightarrow> nat \<Rightarrow> rstate" where
  "import_step f model_name imp root_dir search_dirs st depth max_depth =
     (let imp_model_name = get_or (imp_model imp) [];
          alias = get_or (imp_alias imp) imp_model_name;
          entity_filter = imp_entities imp
      in
      if \<not> truthy imp_model_name then st_issue invalid_import st
      else
        let st1 = track_edge model_name imp_model_name st in
        case map_of (loaded_models st1) imp_model_name of
          Some model_data \<Rightarrow> expose alias imp_model_name entity_filter model_data st1
        | None \<Rightarrow>
            (case resolve_import_path f imp root_dir search_dirs of
               None \<Rightarrow> st_issue (import_not_found imp_model_name) st1
             | Some file_path \<Rightarrow>
                 (case fs_load f file_path of
                    Inl exc \<Rightarrow>
                      st_issue (import_load_failed imp_model_name exc)
                        (log_load (Some imp_model_name) file_path st1)
                  | Inr model_data \<Rightarrow>
                      expose alias imp_model_name entity_filter model_data
                        (let st2 = cache_model imp_model_name file_path model_data
                                     (log_load (Some imp_model_name) file_path st1)
                         in if doc_imports model_data \<noteq> [] then
                              resolve_imports_recursive f imp_model_name
                                (doc_imports model_data) (parent file_path) search_dirs st2
                                (depth + 1) max_depth
                            else st2))))"

lemma loop_cons:
  "resolve_imports_loop f mn (imp # imps) rd sd st d md =
     resolve_imports_loop f mn imps rd sd (import_step f mn imp rd sd st d md) d md"
  by (simp add: import_step_def Let_def split: option.splits sum.splits)

lemma loop_foldl:
  "resolve_imports_loop f mn imps rd sd st d md =
     foldl (\<lambda>st imp. import_step f mn imp rd sd st d md) st imps"
  by (induction imps arbitrary: st) (simp_all add: loop_cons del: resolve_imports_loop.simps(2))

text \<open>
  An invariant rule for the walk: a property of the state that every primitive step keeps
  is kept by the whole recursion.  The steps are: recording an issue (the walk records no
  issue with code \<^verbatim>\<open>CIRCULAR_IMPORT\<close>), recording an edge,
  exposing a model under its alias, a load that fails, and a load that succeeds (logged and
  cached); a load only happens for a name that is not in the cache.
\<close>

lemma import_step_invariant:
  assumes iss: "\<And>i st. I st \<Longrightarrow> code i \<noteq> ''CIRCULAR_IMPORT'' \<Longrightarrow> I (st_issue i st)"
      and edge: "\<And>m n st. I st \<Longrightarrow> I (track_edge m n st)"
      and expo: "\<And>a n ef md st. I st \<Longrightarrow> I (expose a n ef md st)"
      and fail: "\<And>n p e st. I st \<Longrightarrow> map_of (loaded_models st) n = None \<Longrightarrow>
                   fs_load f p = Inl e \<Longrightarrow> I (log_load (Some n) p st)"
      and succ: "\<And>n p md st. I st \<Longrightarrow> map_of (loaded_models st) n = None \<Longrightarrow>
                   fs_load f p = Inr md \<Longrightarrow> I (cache_model n p md (log_load (Some n) p st))"
      and rec: "\<And>n is p st. I st \<Longrightarrow>
                   I (resolve_imports_recursive f n is p sd st (Suc d) mx)"
      and st: "I st"
  shows "I (import_step f mn imp rd sd st d mx)"
proof -
  have lm: "loaded_models (track_edge m n s) = loaded_models s" for m n s
    by (simp add: track_edge_def)
  show ?thesis
    unfolding import_step_def Let_def
    by (auto simp: lm invalid_import_def import_not_found_def import_load_failed_def
        simp del: resolve_imports_recursive.simps
        split: option.splits sum.splits
        intro!: iss edge expo fail succ rec st)
qed

lemma loop_invariant:
  assumes iss: "\<And>i st. I st \<Longrightarrow> code i \<noteq> ''CIRCULAR_IMPORT'' \<Longrightarrow> I (st_issue i st)"
      and edge: "\<And>m n st. I st \<Longrightarrow> I (track_edge m n st)"
      and expo: "\<And>a n ef md st. I st \<Longrightarrow> I (expose a n ef md st)"
      and fail: "\<And>n p e st. I st \<Longrightarrow> map_of (loaded_models st) n = None \<Longrightarrow>
                   fs_load f p = Inl e \<Longrightarrow> I (log_load (Some n) p st)"
      and succ: "\<And>n p md st. I st \<Longrightarrow> map_of (loaded_models st) n = None \<Longrightarrow>
                   fs_load f p = Inr md \<Longrightarrow> I (cache_model n p md (log_load (Some n) p st))"
      and rec: "\<And>n is p st. I st \<Longrightarrow>
                   I (resolve_imports_recursive f n is p sd st (Suc d) mx)"
  shows "I st \<Longrightarrow> I (resolve_imports_loop f mn imps rd sd st d mx)"
proof (induction imps arbitrary: st)
  case Nil
  then show ?case by simp
next
  case (Cons imp imps)
  have "I (import_step f mn imp rd sd st d mx)"
    by (rule import_step_invariant[where I = I, OF iss edge expo fail succ rec Cons.prems])
  then show ?case
    unfolding loop_cons by (rule Cons.IH)
qed

lemma resolve_invariant:
  assumes iss: "\<And>i st. I st \<Longrightarrow> code i \<noteq> ''CIRCULAR_IMPORT'' \<Longrightarrow> I (st_issue i st)"
      and edge: "\<And>m n st. I st \<Longrightarrow> I (track_edge m n st)"
      and expo: "\<And>a n ef md st. I st \<Longrightarrow> I (expose a n ef md st)"
      and fail: "\<And>n p e st. I st \<Longrightarrow> map_of (loaded_models st) n = None \<Longrightarrow>
                   fs_load f p = Inl e \<Longrightarrow> I (log_load (Some n) p st)"
      and succ: "\<And>n p md st. I st \<Longrightarrow> map_of (loaded_models st) n = None \<Longrightarrow>
                   fs_load f p = Inr md \<Longrightarrow> I (cache_model n p md (log_load (Some n) p st))"
  shows "I st \<Longrightarrow> I (resolve_imports_recursive f mn imps rd sd st d mx)"
proof (induction "mx + 1 - d" arbitrary: d st mn imps rd)
  case 0
  then have "d > mx" by simp
  then show ?case using 0 by (simp add: iss depth_exceeded_def)
next
  case (Suc k)
  then have le: "\<not> d > mx" by simp
  have rec: "I (resolve_imports_recursive f n is p sd s (Suc d) mx)" if "I s" for n "is" p s
    using Suc(1)[of "Suc d" s n "is" p] Suc(2) that by simp
  have "I (resolve_imports_loop f mn imps rd sd st d mx)"
    by (rule loop_invariant[where I = I, OF iss edge expo fail succ rec Suc.prems])
  then show ?case using le by simp
qed

section \<open>The cache of parsed imports\<close>

text \<open>
  \<open>parsed_imports\<close> lists, in order, the import names whose load is in the log and
  succeeded.
\<close>

definition parsed_imports :: "fs \<Rightarrow> (string option \<times> path) list \<Rightarrow> string list" where
  "parsed_imports f log =
     concat (map (\<lambda>(n, p). case n of
         None \<Rightarrow> []
       | Some m \<Rightarrow> (case fs_load f p of Inl exc \<Rightarrow> [] | Inr model_data \<Rightarrow> [m])) log)"

definition cache_inv :: "fs \<Rightarrow> rstate \<Rightarrow> bool" where
  "cache_inv f st \<longleftrightarrow>
     distinct (parsed_imports f (load_log st))
     \<and> set (parsed_imports f (load_log st)) \<subseteq> fst ` set (loaded_models st)"

lemma parsed_imports_append:
  "parsed_imports f (xs @ ys) = parsed_imports f xs @ parsed_imports f ys"
  by (simp add: parsed_imports_def)

lemma cache_inv_resolve:
  "cache_inv f st \<Longrightarrow> cache_inv f (resolve_imports_recursive f mn imps rd sd st d mx)"
proof (rule resolve_invariant[where I = "cache_inv f"], goal_cases)
  case (1 i st)
  then show ?case by (simp add: cache_inv_def st_issue_def)
next
  case (2 m n st)
  then show ?case by (simp add: cache_inv_def track_edge_def)
next
  case (3 a n ef md st)
  then show ?case by (simp add: cache_inv_def expose_def split: option.splits list.splits)
next
  case (4 n p e st)
  then show ?case
    by (simp add: cache_inv_def log_load_def parsed_imports_append) (simp add: parsed_imports_def)
next
  case (5 n p md st)
  then have inv: "cache_inv f st" and none: "map_of (loaded_models st) n = None"
    and ok: "fs_load f p = Inr md" by simp_all
  from none have "n \<notin> fst ` set (loaded_models st)" by (simp add: map_of_eq_None_iff)
  with inv have "n \<notin> set (parsed_imports f (load_log st))" by (auto simp: cache_inv_def)
  moreover have "parsed_imports f [(Some n, p)] = [n]" using ok by (simp add: parsed_imports_def)
  ultimately show ?case
    using inv
    by (auto simp: cache_inv_def cache_model_def log_load_def st_issue_def Let_def
        parsed_imports_append dom_update)
qed

text \<open>
  C3, as the code has it.  In one call of \<^verbatim>\<open>resolve_model\<close> no import name is parsed
  successfully twice, and every import that was parsed is in the cache: the cache is looked
  up before the file of an import is searched for or read.
\<close>

theorem import_parsed_once:
  "distinct (parsed_imports f (load_log (resolve_model_run f root_file extra_dirs)))
   \<and> set (parsed_imports f (load_log (resolve_model_run f root_file extra_dirs)))
       \<subseteq> fst ` set (loaded_models (resolve_model_run f root_file extra_dirs))"
proof -
  have "cache_inv f (resolve_model_run f root_file extra_dirs)"
  proof (cases "fs_load f root_file")
    case (Inl e)
    then show ?thesis
      by (simp add: resolve_model_run_def cache_inv_def st_issue_def parsed_imports_def)
  next
    case (Inr root)
    let ?st2 = "\<lparr>loaded_models = [], result = new_resolved\<lparr>root_model := root,
         file_map := AList.update (get_or (doc_name root) ''unknown'') root_file (file_map new_resolved),
         import_graph := AList.update (get_or (doc_name root) ''unknown'') []
            (import_graph new_resolved)\<rparr>, load_log = [(None, root_file)]\<rparr>"
    have "cache_inv f ?st2" by (simp add: cache_inv_def parsed_imports_def)
    then have "cache_inv f (resolve_imports_recursive f (get_or (doc_name root) ''unknown'')
        (doc_imports root) (parent root_file) extra_dirs ?st2 0 10)"
      by (rule cache_inv_resolve)
    then show ?thesis
      using Inr
      by (simp add: resolve_model_run_def cache_inv_def Let_def parsed_imports_def
          del: resolve_imports_recursive.simps)
  qed
  then show ?thesis by (simp add: cache_inv_def)
qed

text \<open>
  A root \<^verbatim>\<open>app\<close> that imports \<^verbatim>\<open>dim\<close> twice, under two aliases, where the file of \<^verbatim>\<open>dim\<close>
  exists and cannot be parsed.
\<close>

definition app_doc :: model_doc where
  "app_doc = \<lparr>doc_name = Some ''app'',
     doc_imports = [\<lparr>imp_model = Some ''dim'', imp_alias = Some ''d1'', imp_path = None,
                      imp_entities = None\<rparr>,
                    \<lparr>imp_model = Some ''dim'', imp_alias = Some ''d2'', imp_path = None,
                      imp_entities = None\<rparr>],
     doc_entities = [], doc_relationships = []\<rparr>"

definition fs_broken_import :: fs where
  "fs_broken_import = \<lparr>
     fs_exists = (\<lambda>p. p \<in> {[''p''], [''p'', ''app.model.yaml''], [''p'', ''dim.model.yaml'']}),
     fs_is_dir = (\<lambda>p. p = [''p'']),
     fs_iterdir = (\<lambda>p. if p = [''p''] then [''app.model.yaml'', ''dim.model.yaml''] else []),
     fs_rel = (\<lambda>d s. None),
     fs_load = (\<lambda>p. if p = [''p'', ''app.model.yaml''] then Inr app_doc
                     else Inl ''mapping values are not allowed here'')\<rparr>"

text \<open>
  C3, as the specification words it, fails: the file of \<^verbatim>\<open>dim\<close> is read and parsed once for
  each of the two imports, because a load that fails leaves nothing in the cache.
\<close>

theorem import_parsed_once_counterexample:
  "load_log (resolve_model_run fs_broken_import [''p'', ''app.model.yaml''] []) =
     [(None, [''p'', ''app.model.yaml'']),
      (Some ''dim'', [''p'', ''dim.model.yaml'']),
      (Some ''dim'', [''p'', ''dim.model.yaml''])]"
  by (simp add: resolve_eval fs_broken_import_def app_doc_def)

section \<open>Circular imports\<close>

text \<open>
  The equations of \<open>detect_cycle\<close> rewrite a call into calls of itself; from here on they are
  applied by hand.
\<close>

declare detect_cycle.simps [simp del] detect_cycle_deps.simps [simp del]


text \<open>
  A set of visited nodes is closed when it holds the dependencies of each of its nodes.  A
  search that answers \<^verbatim>\<open>False\<close> leaves \<^verbatim>\<open>visiting\<close> as it was and \<^verbatim>\<open>visited\<close> closed, with
  the searched node in it.
\<close>

definition closed :: "graph \<Rightarrow> string set \<Rightarrow> bool" where
  "closed g vd \<longleftrightarrow> (\<forall>v\<in>vd. set (get_or (map_of g v) []) \<subseteq> vd)"

lemma detect_cycle_fresh:
  assumes "n \<notin> vg" "n \<notin> vd"
    and "detect_cycle_deps (get_or (map_of g n) []) g (insert n vg) vd = (r, a, b)"
  shows "detect_cycle n g vg vd = (if r then (True, a, b) else (False, a - {n}, insert n b))"
  using assms by (subst detect_cycle.simps) simp

lemma detect_cycle_deps_cons:
  assumes "detect_cycle dep g vg vd = (r, a, b)"
  shows "detect_cycle_deps (dep # deps) g vg vd =
           (if r then (True, a, b) else detect_cycle_deps deps g a b)"
  using assms by (subst detect_cycle_deps.simps) simp

lemma dfs_false:
  "closed g vd \<longrightarrow> vg \<inter> vd = {} \<longrightarrow>
     (\<forall>vg' vd'. detect_cycle n g vg vd = (False, vg', vd') \<longrightarrow>
        vg' = vg \<and> vd \<subseteq> vd' \<and> closed g vd' \<and> n \<in> vd' \<and> vg \<inter> vd' = {})"
  "closed g vd \<longrightarrow> vg \<inter> vd = {} \<longrightarrow>
     (\<forall>vg' vd'. detect_cycle_deps ds g vg vd = (False, vg', vd') \<longrightarrow>
        vg' = vg \<and> vd \<subseteq> vd' \<and> closed g vd' \<and> set ds \<subseteq> vd' \<and> vg \<inter> vd' = {})"
proof (induction n g vg vd and ds g vg vd rule: detect_cycle_detect_cycle_deps.induct)
  case (1 n g vg vd)
  show ?case
  proof (intro impI allI)
    fix vg' vd'
    assume cl: "closed g vd" and dj: "vg \<inter> vd = {}"
      and res: "detect_cycle n g vg vd = (False, vg', vd')"
    show "vg' = vg \<and> vd \<subseteq> vd' \<and> closed g vd' \<and> n \<in> vd' \<and> vg \<inter> vd' = {}"
    proof (cases "n \<in> vg")
      case True
      then have "detect_cycle n g vg vd = (True, vg, vd)" by (subst detect_cycle.simps) simp
      with res show ?thesis by simp
    next
      case nvg: False
      show ?thesis
      proof (cases "n \<in> vd")
        case True
        with nvg have "detect_cycle n g vg vd = (False, vg, vd)"
          by (subst detect_cycle.simps) simp
        with res have "vg' = vg" "vd' = vd" by simp_all
        with True cl dj show ?thesis by simp
      next
        case nvd: False
        obtain r a b where
          dc: "detect_cycle_deps (get_or (map_of g n) []) g (insert n vg) vd = (r, a, b)"
          using prod_cases3 by blast
        from res detect_cycle_fresh[OF nvg nvd dc]
        have r: "\<not> r" and vg': "vg' = a - {n}" and vd': "vd' = insert n b"
          by (simp_all split: if_splits)
        have dj2: "insert n vg \<inter> vd = {}" using dj nvd by auto
        from 1[OF nvg nvd] cl dj2 dc r
        have ih: "a = insert n vg \<and> vd \<subseteq> b \<and> closed g b
                  \<and> set (get_or (map_of g n) []) \<subseteq> b \<and> insert n vg \<inter> b = {}"
          by simp
        have c: "closed g (insert n b)" using ih unfolding closed_def by auto
        show ?thesis
          unfolding vg' vd' using ih nvg c by auto
      qed
    qed
  qed
next
  case (2 g vg vd)
  show ?case by (simp add: detect_cycle_deps.simps)
next
  case (3 dep deps g vg vd)
  show ?case
  proof (intro impI allI)
    fix vg' vd'
    assume cl: "closed g vd" and dj: "vg \<inter> vd = {}"
      and res: "detect_cycle_deps (dep # deps) g vg vd = (False, vg', vd')"
    obtain r a b where dc: "detect_cycle dep g vg vd = (r, a, b)"
      using prod_cases3 by blast
    from res detect_cycle_deps_cons[OF dc, of deps]
    have r: "\<not> r" and rest: "detect_cycle_deps deps g a b = (False, vg', vd')"
      by (simp_all split: if_splits)
    from 3(1) cl dj dc r
    have h1: "a = vg \<and> vd \<subseteq> b \<and> closed g b \<and> dep \<in> b \<and> vg \<inter> b = {}" by simp
    have "closed g b \<longrightarrow> a \<inter> b = {} \<longrightarrow>
            (\<forall>vg' vd'. detect_cycle_deps deps g a b = (False, vg', vd') \<longrightarrow>
               vg' = a \<and> b \<subseteq> vd' \<and> closed g vd' \<and> set deps \<subseteq> vd' \<and> a \<inter> vd' = {})"
      using 3(2)[of r "(a, b)" a b] dc r by simp
    with h1 rest
    have h2: "vg' = a \<and> b \<subseteq> vd' \<and> closed g vd' \<and> set deps \<subseteq> vd' \<and> a \<inter> vd' = {}"
      by simp
    from h1 h2
    show "vg' = vg \<and> vd \<subseteq> vd' \<and> closed g vd' \<and> set (dep # deps) \<subseteq> vd' \<and> vg \<inter> vd' = {}"
      by auto
  qed
qed

lemma two_cycle_detected:
  assumes ab: "b \<in> set (get_or (map_of g a) [])" and ba: "a \<in> set (get_or (map_of g b) [])"
  shows "fst (detect_cycle a g {} {})"
proof (rule ccontr)
  assume nf: "\<not> fst (detect_cycle a g {} {})"
  obtain r x y where dc: "detect_cycle_deps (get_or (map_of g a) []) g {a} {} = (r, x, y)"
    using prod_cases3 by blast
  have eq: "detect_cycle a g {} {} = (if r then (True, x, y) else (False, x - {a}, insert a y))"
    by (rule detect_cycle_fresh) (simp_all add: dc)
  with nf have r: "\<not> r" by (simp split: if_splits)
  have "closed g {}" by (simp add: closed_def)
  with dfs_false(2)[of g "{}" "{a}" "get_or (map_of g a) []"] dc r
  have h: "closed g y \<and> set (get_or (map_of g a) []) \<subseteq> y \<and> {a} \<inter> y = {}" by simp
  then have "b \<in> y" using ab by auto
  then have "a \<in> y" using h ba unfolding closed_def by auto
  with h show False by auto
qed

text \<open>
  \<open>has_edge st m n\<close>: the import graph of the state records the edge from \<open>m\<close> to \<open>n\<close>.
  The walk never removes an edge, and every import entry with a model name is recorded as
  an edge of the importing model before anything else is done with it.
\<close>

definition has_edge :: "rstate \<Rightarrow> string \<Rightarrow> string \<Rightarrow> bool" where
  "has_edge st m n \<longleftrightarrow> n \<in> set (get_or (map_of (import_graph (result st)) m) [])"

definition no_circular :: "rstate \<Rightarrow> bool" where
  "no_circular st \<longleftrightarrow> (\<forall>i\<in>set (issues (result st)). code i \<noteq> ''CIRCULAR_IMPORT'')"

lemma has_edge_track: "has_edge (track_edge m n st) m n"
  by (simp add: has_edge_def track_edge_def update_conv' get_or_def)

lemma has_edge_track_keep: "has_edge st a b \<Longrightarrow> has_edge (track_edge m n st) a b"
  by (auto simp: has_edge_def track_edge_def update_conv' get_or_def split: option.splits)

lemma has_edge_expose: "has_edge st a b \<Longrightarrow> has_edge (expose al n ef md st) a b"
  by (simp add: has_edge_def expose_def split: option.splits list.splits)

lemma has_edge_issue: "has_edge st a b \<Longrightarrow> has_edge (st_issue i st) a b"
  by (simp add: has_edge_def st_issue_def add_issue_def)

lemma has_edge_log: "has_edge st a b \<Longrightarrow> has_edge (log_load n p st) a b"
  by (simp add: has_edge_def log_load_def)

lemma has_edge_cache: "has_edge st a b \<Longrightarrow> has_edge (cache_model n p md st) a b"
  by (simp add: has_edge_def cache_model_def st_issue_def add_issue_def Let_def)

lemma has_edge_resolve:
  "has_edge st a b \<Longrightarrow> has_edge (resolve_imports_recursive f mn imps rd sd st d mx) a b"
  by (rule resolve_invariant[where I = "\<lambda>s. has_edge s a b"])
     (simp_all add: has_edge_track_keep has_edge_expose has_edge_issue has_edge_log has_edge_cache)

lemma has_edge_step:
  "has_edge st a b \<Longrightarrow> has_edge (import_step f mn imp rd sd st d mx) a b"
  by (rule import_step_invariant[where I = "\<lambda>s. has_edge s a b"])
     (simp_all add: has_edge_track_keep has_edge_expose has_edge_issue has_edge_log has_edge_cache
        has_edge_resolve del: resolve_imports_recursive.simps)

lemma has_edge_loop:
  "has_edge st a b \<Longrightarrow> has_edge (resolve_imports_loop f mn imps rd sd st d mx) a b"
  by (induction imps arbitrary: st) (simp_all add: loop_cons has_edge_step del: resolve_imports_loop.simps(2))

lemma step_records_edge:
  assumes "truthy (get_or (imp_model imp) [])"
  shows "has_edge (import_step f mn imp rd sd st d mx) mn (get_or (imp_model imp) [])"
  using assms unfolding import_step_def Let_def
  by (auto simp del: resolve_imports_recursive.simps split: option.splits sum.splits
      intro!: has_edge_expose has_edge_issue has_edge_log has_edge_cache has_edge_resolve
        has_edge_track)

lemma loop_records_edges:
  "imp \<in> set imps \<Longrightarrow> truthy (get_or (imp_model imp) []) \<Longrightarrow>
     has_edge (resolve_imports_loop f mn imps rd sd st d mx) mn (get_or (imp_model imp) [])"
proof (induction imps arbitrary: st)
  case Nil
  then show ?case by simp
next
  case (Cons i imps)
  show ?case
  proof (cases "imp = i")
    case True
    have "has_edge (import_step f mn i rd sd st d mx) mn (get_or (imp_model imp) [])"
      using Cons.prems(2) True step_records_edge by simp
    then show ?thesis unfolding loop_cons by (rule has_edge_loop)
  next
    case False
    with Cons.prems have "imp \<in> set imps" by simp
    then show ?thesis unfolding loop_cons using Cons.IH Cons.prems(2) by simp
  qed
qed

lemma no_circular_resolve:
  "no_circular st \<Longrightarrow> no_circular (resolve_imports_recursive f mn imps rd sd st d mx)"
proof (rule resolve_invariant[where I = no_circular], goal_cases)
  case (1 i st)
  then show ?case by (simp add: no_circular_def st_issue_def add_issue_def)
next
  case (2 m n st)
  then show ?case by (simp add: no_circular_def track_edge_def)
next
  case (3 a n ef md st)
  then show ?case
    by (auto simp: no_circular_def expose_def filter_issues_def import_entity_not_found_def
        split: option.splits list.splits)
next
  case (4 n p e st)
  then show ?case by (simp add: no_circular_def log_load_def)
next
  case (5 n p md st)
  then show ?case
    by (auto simp: no_circular_def cache_model_def log_load_def st_issue_def add_issue_def
        Let_def import_name_mismatch_def)
qed

lemma seen_model_codes:
  "c \<noteq> ''DUPLICATE_CROSS_MODEL_ENTITY'' \<Longrightarrow>
     filter (\<lambda>i. code i = c) (snd (seen_model a mn es (sn, iss))) = filter (\<lambda>i. code i = c) iss"
  by (induction es arbitrary: sn iss)
     (auto simp: Let_def duplicate_entity_def split: option.splits)

lemma seen_imports_codes:
  "c \<noteq> ''DUPLICATE_CROSS_MODEL_ENTITY'' \<Longrightarrow>
     filter (\<lambda>i. code i = c) (snd (seen_imports ims (sn, iss))) = filter (\<lambda>i. code i = c) iss"
proof (induction ims arbitrary: sn iss)
  case Nil
  then show ?case by simp
next
  case (Cons im ims)
  obtain a m where im: "im = (a, m)" by (cases im)
  obtain sn' iss' where
    sm: "seen_model a (get_or (doc_name m) a) (doc_entities m) (sn, iss) = (sn', iss')"
    by (cases "seen_model a (get_or (doc_name m) a) (doc_entities m) (sn, iss)")
  have "filter (\<lambda>i. code i = c) iss' = filter (\<lambda>i. code i = c) iss"
    using seen_model_codes[OF Cons.prems, of a "get_or (doc_name m) a" "doc_entities m" sn iss] sm
    by simp
  then show ?case using Cons.IH[OF Cons.prems, of sn' iss'] by (simp add: im sm)
qed

lemma recursive_records_edges:
  assumes "d \<le> mx" "imp \<in> set imps" "truthy (get_or (imp_model imp) [])"
  shows "has_edge (resolve_imports_recursive f mn imps rd sd st d mx) mn (get_or (imp_model imp) [])"
  using assms by (simp add: loop_records_edges del: resolve_imports_loop.simps)

definition circular_count :: "resolved \<Rightarrow> nat" where
  "circular_count r = length (filter (\<lambda>i. code i = ''CIRCULAR_IMPORT'') (issues r))"

text \<open>
  C6.  The root loads and its first import entry names a model \<^verbatim>\<open>B\<close> whose file is found
  and loads; the document of \<^verbatim>\<open>B\<close> has an import entry that names the root by its model
  name.  Then the result holds exactly one issue with code \<^verbatim>\<open>CIRCULAR_IMPORT\<close>, whatever
  else the two documents import.  As the first entry of the root, \<^verbatim>\<open>B\<close> is loaded at depth 0
  and its imports are walked at depth 1, below the ceiling.
\<close>

theorem circular_import_reported:
  assumes root: "fs_load f root_file = Inr root"
    and imps: "doc_imports root = imp_b # rest"
    and b: "truthy (get_or (imp_model imp_b) [])"
    and path: "resolve_import_path f imp_b (parent root_file) extra_dirs = Some file_b"
    and load: "fs_load f file_b = Inr model_b"
    and bk: "imp_a \<in> set (doc_imports model_b)"
    and name: "get_or (imp_model imp_a) [] = get_or (doc_name root) ''unknown''"
    and a: "truthy (get_or (doc_name root) ''unknown'')"
  shows "circular_count (resolve_model f root_file extra_dirs) = 1"
proof -
  let ?A = "get_or (doc_name root) ''unknown''"
  let ?B = "get_or (imp_model imp_b) []"
  let ?rd = "parent root_file"
  define st2 where "st2 = \<lparr>loaded_models = [], result = new_resolved\<lparr>root_model := root,
         file_map := AList.update ?A root_file (file_map new_resolved),
         import_graph := AList.update ?A [] (import_graph new_resolved)\<rparr>,
         load_log = [(None, root_file)]\<rparr>"
  define s1 where "s1 = import_step f ?A imp_b ?rd extra_dirs st2 0 10"
  define st3 where "st3 = resolve_imports_recursive f ?A (doc_imports root) ?rd extra_dirs st2 0 10"
  have st3: "st3 = resolve_imports_loop f ?A rest ?rd extra_dirs s1 0 10"
    by (simp add: st3_def s1_def imps loop_cons del: resolve_imports_loop.simps)
  have loaded: "map_of (loaded_models (track_edge ?A ?B st2)) ?B = None"
    by (simp add: st2_def track_edge_def)
  have ne: "doc_imports model_b \<noteq> []" using bk by auto
  have s1_eq: "s1 = expose (get_or (imp_alias imp_b) ?B) ?B (imp_entities imp_b) model_b
      (resolve_imports_recursive f ?B (doc_imports model_b) (parent file_b) extra_dirs
         (cache_model ?B file_b model_b (log_load (Some ?B) file_b (track_edge ?A ?B st2)))
         (Suc 0) 10)"
    unfolding s1_def import_step_def Let_def
    using b loaded path load ne by (simp del: resolve_imports_recursive.simps)
  have "has_edge s1 ?B (get_or (imp_model imp_a) [])"
    unfolding s1_eq
    by (rule has_edge_expose, rule recursive_records_edges) (simp_all add: bk name a)
  then have ba1: "has_edge s1 ?B ?A" by (simp add: name)
  have ab1: "has_edge s1 ?A ?B" unfolding s1_def using b by (rule step_records_edge)
  have ab: "has_edge st3 ?A ?B" and ba: "has_edge st3 ?B ?A"
    unfolding st3 using ab1 ba1 by (simp_all add: has_edge_loop del: resolve_imports_loop.simps)
  have cyc: "fst (detect_cycle ?A (import_graph (result st3)) {} {})"
    using ab ba unfolding has_edge_def by (rule two_cycle_detected)
  have "no_circular st2" by (simp add: no_circular_def st2_def new_resolved_def)
  then have "no_circular st3" unfolding st3_def by (rule no_circular_resolve)
  then have none: "filter (\<lambda>i. code i = ''CIRCULAR_IMPORT'') (issues (result st3)) = []"
    by (auto simp: no_circular_def filter_empty_conv)
  have run: "resolve_model f root_file extra_dirs
      = check_duplicates ?A (check_cycle ?A (result st3))"
    using root imps
    by (simp add: resolve_model_def resolve_model_run_def Let_def st3_def st2_def
        del: resolve_imports_recursive.simps)
  show ?thesis
    unfolding run circular_count_def
    by (simp add: check_duplicates_def seen_imports_codes check_cycle_def cyc add_issue_def none
        circular_import_def del: detect_cycle.simps)
qed

text \<open>Two files \<^verbatim>\<open>a\<close> and \<^verbatim>\<open>b\<close> in one directory that import each other.\<close>

definition a_doc :: model_doc where
  "a_doc = \<lparr>doc_name = Some ''a'', doc_imports = [import_of ''b''], doc_entities = [],
     doc_relationships = []\<rparr>"

definition b_doc :: model_doc where
  "b_doc = \<lparr>doc_name = Some ''b'', doc_imports = [import_of ''a''], doc_entities = [],
     doc_relationships = []\<rparr>"

definition fs_cycle :: fs where
  "fs_cycle = \<lparr>
     fs_exists = (\<lambda>p. p \<in> {[''p''], [''p'', ''a.model.yaml''], [''p'', ''b.model.yaml'']}),
     fs_is_dir = (\<lambda>p. p = [''p'']),
     fs_iterdir = (\<lambda>p. if p = [''p''] then [''a.model.yaml'', ''b.model.yaml''] else []),
     fs_rel = (\<lambda>d s. None),
     fs_load = (\<lambda>p. if p = [''p'', ''a.model.yaml''] then Inr a_doc
                     else if p = [''p'', ''b.model.yaml''] then Inr b_doc
                     else Inl ''No such file'')\<rparr>"

theorem circular_import_reported_witness:
  "fs_load fs_cycle [''p'', ''a.model.yaml''] = Inr a_doc
   \<and> doc_imports a_doc = [import_of ''b'']
   \<and> fs_load fs_cycle [''p'', ''b.model.yaml''] = Inr b_doc
   \<and> import_of ''a'' \<in> set (doc_imports b_doc)
   \<and> circular_count (resolve_model fs_cycle [''p'', ''a.model.yaml''] []) = 1"
proof -
  have h1: "fs_load fs_cycle [''p'', ''a.model.yaml''] = Inr a_doc"
    by (simp add: fs_cycle_def)
  have h2: "doc_imports a_doc = import_of ''b'' # []" by (simp add: a_doc_def)
  have h3: "truthy (get_or (imp_model (import_of ''b'')) [])"
    by (simp add: import_of_def get_or_def truthy_def)
  have h4: "resolve_import_path fs_cycle (import_of ''b'') (parent [''p'', ''a.model.yaml'']) []
              = Some [''p'', ''b.model.yaml'']"
    by (simp add: resolve_import_path_def find_model_file_def candidates_def import_of_def
        get_or_def truthy_def parent_def fs_cycle_def)
  have h5: "fs_load fs_cycle [''p'', ''b.model.yaml''] = Inr b_doc"
    by (simp add: fs_cycle_def)
  have h6: "import_of ''a'' \<in> set (doc_imports b_doc)" by (simp add: b_doc_def)
  have h7: "get_or (imp_model (import_of ''a'')) [] = get_or (doc_name a_doc) ''unknown''"
    by (simp add: import_of_def a_doc_def get_or_def)
  have h8: "truthy (get_or (doc_name a_doc) ''unknown'')"
    by (simp add: a_doc_def get_or_def truthy_def)
  show ?thesis
    using h1 h2 h5 h6 circular_import_reported [OF h1 h2 h3 h4 h5 h6 h7 h8] by simp
qed

text \<open>
  A root \<^verbatim>\<open>a\<close> that imports \<^verbatim>\<open>c1\<close> and then \<^verbatim>\<open>b\<close>, where \<^verbatim>\<open>c1\<close> starts a chain of ten
  imports that ends in \<^verbatim>\<open>b\<close>, and \<^verbatim>\<open>b\<close> imports \<^verbatim>\<open>a\<close>.  All twelve files are in one
  directory.
\<close>

definition chain_doc :: "string \<Rightarrow> string list \<Rightarrow> model_doc" where
  "chain_doc n ms = \<lparr>doc_name = Some n, doc_imports = map import_of ms, doc_entities = [],
     doc_relationships = []\<rparr>"

definition chain_docs :: "(string \<times> model_doc) list" where
  "chain_docs = [
     (''a'', chain_doc ''a'' [''c1'', ''b'']),
     (''c1'', chain_doc ''c1'' [''c2'']),
     (''c2'', chain_doc ''c2'' [''c3'']),
     (''c3'', chain_doc ''c3'' [''c4'']),
     (''c4'', chain_doc ''c4'' [''c5'']),
     (''c5'', chain_doc ''c5'' [''c6'']),
     (''c6'', chain_doc ''c6'' [''c7'']),
     (''c7'', chain_doc ''c7'' [''c8'']),
     (''c8'', chain_doc ''c8'' [''c9'']),
     (''c9'', chain_doc ''c9'' [''c10'']),
     (''c10'', chain_doc ''c10'' [''b'']),
     (''b'', chain_doc ''b'' [''a''])]"

definition chain_file :: "string \<Rightarrow> path" where
  "chain_file n = [''p'', n @ ''.model.yaml'']"

definition fs_chain :: fs where
  "fs_chain = \<lparr>
     fs_exists = (\<lambda>p. p = [''p''] \<or> p \<in> set (map (chain_file \<circ> fst) chain_docs)),
     fs_is_dir = (\<lambda>p. p = [''p'']),
     fs_iterdir = (\<lambda>p. if p = [''p''] then map (\<lambda>(n, d). n @ ''.model.yaml'') chain_docs else []),
     fs_rel = (\<lambda>d s. None),
     fs_load = (\<lambda>p. case map_of (map (\<lambda>(n, d). (chain_file n, d)) chain_docs) p of
                       Some d \<Rightarrow> Inr d
                     | None \<Rightarrow> Inl ''No such file'')\<rparr>"

text \<open>
  C6, as the specification words it, fails.  The walk reaches \<^verbatim>\<open>b\<close> first at the end of the
  chain, at depth 10, where it is loaded and cached; its own imports would be walked at depth
  11, above the ceiling, so the edge from \<^verbatim>\<open>b\<close> to \<^verbatim>\<open>a\<close> is never recorded.  The root's own
  import of \<^verbatim>\<open>b\<close> is then served from the cache, and the search finds no cycle.
\<close>

theorem circular_import_depth_counterexample:
  "fs_load fs_chain (chain_file ''a'') = Inr (chain_doc ''a'' [''c1'', ''b''])
   \<and> import_of ''b'' \<in> set (doc_imports (chain_doc ''a'' [''c1'', ''b'']))
   \<and> resolve_import_path fs_chain (import_of ''b'') (parent (chain_file ''a'')) []
         = Some (chain_file ''b'')
   \<and> fs_load fs_chain (chain_file ''b'') = Inr (chain_doc ''b'' [''a''])
   \<and> import_of ''a'' \<in> set (doc_imports (chain_doc ''b'' [''a'']))
   \<and> circular_count (resolve_model fs_chain (chain_file ''a'') []) = 0"
  by (simp add: resolve_eval fs_chain_def chain_docs_def chain_doc_def chain_file_def
      import_of_def depth_exceeded_def circular_count_def detect_cycle.simps
      detect_cycle_deps.simps circular_import_def)

section \<open>Canonical form of a document\<close>

text \<open>
  The canonicaliser (\<^verbatim>\<open>dm_core/canonical.py\<close>) works on the untyped value the loader returns.
  A mapping is an association list in insertion order with string keys; a string is the
  list of its bytes in UTF-8, whose lexicographic order is the order of the code points that
  Python compares.  Floating-point numbers are not modelled.
\<close>

datatype pyval =
    PNone
  | PBool bool
  | PInt int
  | PStr string
  | PList "pyval list"
  | PDict "(string \<times> pyval) list"

text \<open>
  Every exception the canonicaliser can run into (a \<^verbatim>\<open>TypeError\<close> from iterating or comparing,
  an \<^verbatim>\<open>AttributeError\<close> from calling \<^verbatim>\<open>.get\<close> on a value that is not a mapping) is the one
  error value \<open>Raised\<close>.
\<close>

datatype py_error = Raised

definition is_dict :: "pyval \<Rightarrow> bool" where
  "is_dict v = (case v of PDict kvs \<Rightarrow> True | _ \<Rightarrow> False)"

text \<open>\<^verbatim>\<open>d.get(k, default)\<close> on a mapping, and \<^verbatim>\<open>d[k] = v\<close>.\<close>

definition dget :: "pyval \<Rightarrow> string \<Rightarrow> pyval \<Rightarrow> pyval" where
  "dget d k dflt = (case d of PDict kvs \<Rightarrow> (case map_of kvs k of Some v \<Rightarrow> v | None \<Rightarrow> dflt)
                            | _ \<Rightarrow> dflt)"

definition dset :: "pyval \<Rightarrow> string \<Rightarrow> pyval \<Rightarrow> pyval" where
  "dset d k v = (case d of PDict kvs \<Rightarrow> PDict (AList.update k v kvs) | _ \<Rightarrow> d)"

definition has_key :: "pyval \<Rightarrow> string \<Rightarrow> bool" where
  "has_key d k = (case d of PDict kvs \<Rightarrow> map_of kvs k \<noteq> None | _ \<Rightarrow> False)"

text \<open>
  Iterating a value: a list gives its items, a mapping its keys, a string its characters;
  anything else raises.
\<close>

definition py_iter :: "pyval \<Rightarrow> py_error + pyval list" where
  "py_iter v = (case v of
       PList xs \<Rightarrow> Inr xs
     | PDict kvs \<Rightarrow> Inr (map (\<lambda>kv. PStr (fst kv)) kvs)
     | PStr s \<Rightarrow> Inr (map (\<lambda>c. PStr [c]) s)
     | _ \<Rightarrow> Inl Raised)"

subsection \<open>Ordering sort keys\<close>

text \<open>
  Python orders numbers (\<^verbatim>\<open>bool\<close> is a number: \<^verbatim>\<open>False\<close> is 0 and \<^verbatim>\<open>True\<close> is 1) among
  themselves and strings among themselves; comparing across the two, or comparing \<^verbatim>\<open>None\<close>
  with anything, raises \<^verbatim>\<open>TypeError\<close>.  \<open>rank\<close> maps a value to its class (0 numbers,
  1 strings, 2 \<^verbatim>\<open>None\<close>, 3 lists and mappings) and its position within the class, so that
  inside class 0 and inside class 1 the order of the ranks is Python's order and equal ranks
  are equal values for \<^verbatim>\<open>==\<close>.
\<close>

fun rank :: "pyval \<Rightarrow> nat \<times> int \<times> string" where
  "rank (PBool b) = (0, (if b then 1 else 0), [])"
| "rank (PInt i) = (0, i, [])"
| "rank (PStr s) = (1, 0, s)"
| "rank PNone = (2, 0, [])"
| "rank (PList xs) = (3, 0, [])"
| "rank (PDict kvs) = (3, 0, [])"

definition cls :: "pyval \<Rightarrow> nat" where
  "cls v = fst (rank v)"

text \<open>
  \<^verbatim>\<open>sorted(xs, key=f)\<close> with plain keys compares the keys with \<^verbatim>\<open><\<close>.  With two or more
  items every item takes part in a comparison, so the call returns exactly when all keys
  are numbers or all keys are strings.  Keys that are lists are outside the model (Python
  can order some of them): they are reported as raising.
\<close>

definition orderable :: "pyval list \<Rightarrow> bool" where
  "orderable ks = (length ks \<le> 1 \<or> list_all (\<lambda>k. cls k = 0) ks \<or> list_all (\<lambda>k. cls k = 1) ks)"

text \<open>
  With tuple keys Python first looks for the first position where the two tuples differ
  (by \<^verbatim>\<open>==\<close>) and compares only the components there, so two tuples can be ordered exactly
  when they are equal or their first differing components are two numbers or two strings.
  Components that are lists or mappings are outside the model and reported as raising.
\<close>

fun tuple_ok :: "pyval list \<Rightarrow> pyval list \<Rightarrow> bool" where
  "tuple_ok (x # xs) (y # ys) =
     (if rank x = rank y then tuple_ok xs ys else cls x = cls y \<and> cls x \<le> 1)"
| "tuple_ok xs ys = True"

definition orderable_tuples :: "pyval list list \<Rightarrow> bool" where
  "orderable_tuples ts =
     (length ts \<le> 1 \<or>
      (list_all (\<lambda>t. list_all (\<lambda>x. cls x \<le> 2) t) ts
       \<and> list_all (\<lambda>t. list_all (\<lambda>u. tuple_ok t u) ts) ts))"

text \<open>
  \<^verbatim>\<open>sorted(items, key=lambda item: item.get(k, ""))\<close> and the variant whose key is the tuple
  of several such lookups.  The key function runs on every item first and raises on an item
  that is not a mapping.  Python's sort is stable; so is \<open>sort_key\<close>.
\<close>

definition key1 :: "string \<Rightarrow> pyval \<Rightarrow> pyval" where
  "key1 k item = dget item k (PStr [])"

definition keys_of :: "string list \<Rightarrow> pyval \<Rightarrow> pyval list" where
  "keys_of ks item = map (\<lambda>k. dget item k (PStr [])) ks"

definition sorted_by :: "string \<Rightarrow> pyval list \<Rightarrow> py_error + pyval list" where
  "sorted_by k items =
     (if \<not> list_all is_dict items then Inl Raised
      else if \<not> orderable (map (key1 k) items) then Inl Raised
      else Inr (sort_key (\<lambda>item. rank (key1 k item)) items))"

definition sorted_by_tuple :: "string list \<Rightarrow> pyval list \<Rightarrow> py_error + pyval list" where
  "sorted_by_tuple ks items =
     (if \<not> list_all is_dict items then Inl Raised
      else if \<not> orderable_tuples (map (keys_of ks) items) then Inl Raised
      else Inr (sort_key (\<lambda>item. map rank (keys_of ks item)) items))"

text \<open>\<^verbatim>\<open>sorted(xs)\<close> on the items themselves.\<close>

definition sorted_plain :: "pyval list \<Rightarrow> py_error + pyval list" where
  "sorted_plain xs = (if orderable xs then Inr (sort_key rank xs) else Inl Raised)"

subsection \<open>The canonicaliser\<close>

text \<open>Sequencing of computations that may raise.\<close>

definition bind_err :: "py_error + 'a \<Rightarrow> ('a \<Rightarrow> py_error + 'b) \<Rightarrow> py_error + 'b" where
  "bind_err r k = (case r of Inl e \<Rightarrow> Inl e | Inr v \<Rightarrow> k v)"

text \<open>A loop that builds a list and stops at the first item that raises.\<close>

fun map_err :: "('a \<Rightarrow> py_error + 'b) \<Rightarrow> 'a list \<Rightarrow> py_error + 'b list" where
  "map_err g [] = Inr []"
| "map_err g (x # xs) =
     bind_err (g x) (\<lambda>y. bind_err (map_err g xs) (\<lambda>ys. Inr (y # ys)))"

definition sort_fields :: "pyval \<Rightarrow> py_error + pyval" where
  "sort_fields field_list =
     bind_err (py_iter field_list) (\<lambda>items.
     bind_err (sorted_by ''name'' items) (\<lambda>xs. Inr (PList xs)))"

text \<open>
  \<^verbatim>\<open>if k in cloned and isinstance(cloned[k], list): cloned[k] = sorted(cloned[k])\<close>, for a
  mapping \<^verbatim>\<open>cloned\<close>.
\<close>

definition sort_member :: "string \<Rightarrow> pyval \<Rightarrow> py_error + pyval" where
  "sort_member k cloned =
     (case dget cloned k PNone of
        PList xs \<Rightarrow> bind_err (sorted_plain xs) (\<lambda>ys. Inr (dset cloned k (PList ys)))
      | _ \<Rightarrow> Inr cloned)"

text \<open>The body of the loop of \<^verbatim>\<open>_sort_entities\<close>; \<^verbatim>\<open>cloned.get\<close> raises unless the item is a mapping.\<close>

definition canon_entity :: "pyval \<Rightarrow> py_error + pyval" where
  "canon_entity entity =
     (if \<not> is_dict entity then Inl Raised
      else bind_err (sort_fields (dget entity ''fields'' (PList []))) (\<lambda>fs.
           sort_member ''tags'' (dset entity ''fields'' fs)))"

definition sort_entities :: "pyval \<Rightarrow> py_error + pyval" where
  "sort_entities entities =
     bind_err (py_iter entities) (\<lambda>items.
     bind_err (map_err canon_entity items) (\<lambda>sorted_entities.
     bind_err (sorted_by ''name'' sorted_entities) (\<lambda>xs. Inr (PList xs))))"

definition sort_relationships :: "pyval \<Rightarrow> py_error + pyval" where
  "sort_relationships relationships =
     bind_err (py_iter relationships) (\<lambda>items.
     bind_err (sorted_by_tuple [''name'', ''from'', ''to'', ''cardinality''] items)
       (\<lambda>xs. Inr (PList xs)))"

definition sort_rules :: "pyval \<Rightarrow> py_error + pyval" where
  "sort_rules rules =
     bind_err (py_iter rules) (\<lambda>items.
     bind_err (sorted_by_tuple [''name'', ''target''] items) (\<lambda>xs. Inr (PList xs)))"

definition sort_indexes :: "pyval \<Rightarrow> py_error + pyval" where
  "sort_indexes indexes =
     bind_err (py_iter indexes) (\<lambda>items.
     bind_err (sorted_by_tuple [''name'', ''entity''] items) (\<lambda>xs. Inr (PList xs)))"

text \<open>
  The body of the loop of \<^verbatim>\<open>_sort_glossary\<close>.  A term that is not a mapping raises, in the
  loop or in the key function of the final sort.
\<close>

definition canon_term :: "pyval \<Rightarrow> py_error + pyval" where
  "canon_term term =
     (if \<not> is_dict term then Inl Raised
      else bind_err (sort_member ''related_fields'' term) (sort_member ''tags''))"

definition sort_glossary :: "pyval \<Rightarrow> py_error + pyval" where
  "sort_glossary glossary =
     bind_err (py_iter glossary) (\<lambda>items.
     bind_err (map_err canon_term items) (\<lambda>sorted_terms.
     bind_err (sorted_by ''term'' sorted_terms) (\<lambda>xs. Inr (PList xs))))"

text \<open>
  \<^verbatim>\<open>governance[k] = {key: d[key] for key in sorted(d.keys())}\<close> when \<^verbatim>\<open>governance.get(k)\<close> is
  a mapping \<^verbatim>\<open>d\<close>.
\<close>

definition rekey :: "string \<Rightarrow> pyval \<Rightarrow> pyval" where
  "rekey k governance =
     (case dget governance k PNone of
        PDict kvs \<Rightarrow> dset governance k (PDict (sort_key fst kvs))
      | _ \<Rightarrow> governance)"

definition compile_model :: "pyval \<Rightarrow> py_error + pyval" where
  "compile_model model =
     (if \<not> is_dict model then Inl Raised
      else
        bind_err (sort_entities (dget model ''entities'' (PList []))) (\<lambda>entities.
        bind_err (sort_relationships (dget model ''relationships'' (PList []))) (\<lambda>relationships.
        bind_err (sort_indexes (dget model ''indexes'' (PList []))) (\<lambda>indexes.
        bind_err (sort_rules (dget model ''rules'' (PList []))) (\<lambda>rules.
        if \<not> is_dict (dget model ''governance'' (PDict [])) then Inl Raised
        else
          bind_err (sort_glossary (dget model ''glossary'' (PList []))) (\<lambda>glossary.
          if \<not> is_dict (dget model ''model'' (PDict [])) then Inl Raised
          else
            bind_err (sort_member ''owners'' (dget model ''model'' (PDict []))) (\<lambda>block.
            Inr (PDict [
              (''model'', block),
              (''entities'', entities),
              (''relationships'', relationships),
              (''indexes'', indexes),
              (''rules'', rules),
              (''governance'',
                 rekey ''stewards'' (rekey ''classification'' (dget model ''governance'' (PDict [])))),
              (''glossary'', glossary),
              (''display'', dget model ''display'' (PDict []))]))))))))"

lemma bind_err_Inr: "bind_err r k = Inr v \<longleftrightarrow> (\<exists>a. r = Inr a \<and> k a = Inr v)"
  by (cases r) (simp_all add: bind_err_def)

lemma bind_err_simps [simp]: "bind_err (Inr a) k = k a" "bind_err (Inl e) k = Inl e"
  by (simp_all add: bind_err_def)

lemma orderable_cong:
  "length xs = length ys \<Longrightarrow> set xs = set ys \<Longrightarrow> orderable xs = orderable ys"
  by (simp add: orderable_def list_all_iff)

lemma orderable_tuples_cong:
  "length xs = length ys \<Longrightarrow> set xs = set ys \<Longrightarrow> orderable_tuples xs = orderable_tuples ys"
  by (simp add: orderable_tuples_def list_all_iff)

lemma sort_key_twice: "sort_key f (sort_key f xs) = sort_key f xs"
  by (simp add: sort_key_id_if_sorted)

lemma sorted_plain_idem: "sorted_plain xs = Inr ys \<Longrightarrow> sorted_plain ys = Inr ys"
  using orderable_cong[of "sort_key rank xs" xs]
  by (auto simp: sorted_plain_def sort_key_twice split: if_splits)

lemma sorted_by_idem: "sorted_by k xs = Inr ys \<Longrightarrow> sorted_by k ys = Inr ys"
  using orderable_cong[of "map (key1 k) (sort_key (\<lambda>item. rank (key1 k item)) xs)" "map (key1 k) xs"]
  by (auto simp: sorted_by_def sort_key_twice list_all_iff split: if_splits)

lemma sorted_by_tuple_idem: "sorted_by_tuple ks xs = Inr ys \<Longrightarrow> sorted_by_tuple ks ys = Inr ys"
  using orderable_tuples_cong[of "map (keys_of ks) (sort_key (\<lambda>item. map rank (keys_of ks item)) xs)"
      "map (keys_of ks) xs"]
  by (auto simp: sorted_by_tuple_def sort_key_twice list_all_iff split: if_splits)

lemma sorted_by_set: "sorted_by k xs = Inr ys \<Longrightarrow> set ys = set xs"
  by (auto simp: sorted_by_def split: if_splits)

lemma is_dict_dset [simp]: "is_dict (dset d k v) = is_dict d"
  by (cases d) (simp_all add: is_dict_def dset_def)

lemma dget_dset: "is_dict d \<Longrightarrow> dget (dset d k v) k' dflt = (if k' = k then v else dget d k' dflt)"
  by (cases d) (simp_all add: is_dict_def dset_def dget_def update_conv')

lemma dset_same: "has_key d k \<Longrightarrow> dget d k dflt = v \<Longrightarrow> dset d k v = d"
  by (cases d) (auto simp: has_key_def dset_def dget_def intro: update_triv)

lemma has_key_dset [simp]: "is_dict d \<Longrightarrow> has_key (dset d k v) k' = (k' = k \<or> has_key d k')"
  by (cases d) (auto simp: is_dict_def has_key_def dset_def update_conv')

lemma dget_PList_has_key: "dget d k PNone = PList xs \<Longrightarrow> has_key d k"
  by (cases d) (auto simp: dget_def has_key_def split: option.splits)

lemma dget_PDict_has_key: "dget d k PNone = PDict xs \<Longrightarrow> has_key d k"
  by (cases d) (auto simp: dget_def has_key_def split: option.splits)

lemma sort_member_is_dict: "sort_member k c = Inr c' \<Longrightarrow> is_dict c' = is_dict c"
  by (auto simp: sort_member_def bind_err_Inr split: pyval.splits)

lemma sort_member_other:
  "sort_member k c = Inr c' \<Longrightarrow> k' \<noteq> k \<Longrightarrow> dget c' k' dflt = dget c k' dflt"
  by (cases "is_dict c")
     (auto simp: sort_member_def bind_err_Inr dget_dset split: pyval.splits,
      auto simp: is_dict_def dset_def split: pyval.splits)

lemma sort_member_idem: "sort_member k c = Inr c' \<Longrightarrow> sort_member k c' = Inr c'"
proof (cases "dget c k PNone")
  case (PList xs)
  assume a: "sort_member k c = Inr c'"
  with PList obtain ys where ys: "sorted_plain xs = Inr ys" and c': "c' = dset c k (PList ys)"
    by (auto simp: sort_member_def bind_err_Inr)
  have d: "is_dict c" using PList by (cases c) (simp_all add: dget_def is_dict_def)
  have g: "dget c' k PNone = PList ys" by (simp add: c' dget_dset d)
  have "dset c' k (PList ys) = c'"
    by (rule dset_same[where dflt = PNone]) (simp_all add: c' d dget_dset)
  then show ?thesis
    by (simp add: sort_member_def g sorted_plain_idem[OF ys])
qed (auto simp: sort_member_def)

lemma sort_fields_idem: "sort_fields v = Inr w \<Longrightarrow> sort_fields w = Inr w"
  by (auto simp: sort_fields_def bind_err_Inr py_iter_def dest: sorted_by_idem)

lemma canon_entity_idem:
  assumes "canon_entity e = Inr c"
  shows "canon_entity c = Inr c"
proof -
  from assms have d: "is_dict e" by (auto simp: canon_entity_def split: if_splits)
  from assms d obtain fs where fs: "sort_fields (dget e ''fields'' (PList [])) = Inr fs"
    and c: "sort_member ''tags'' (dset e ''fields'' fs) = Inr c"
    by (auto simp: canon_entity_def bind_err_Inr)
  have dc: "is_dict c" using sort_member_is_dict[OF c] d by simp
  have gf: "dget c ''fields'' (PList []) = fs"
    using sort_member_other[OF c, of "''fields''"] by (simp add: dget_dset d)
  have gf': "dget c ''fields'' PNone = fs"
    using sort_member_other[OF c, of "''fields''"] by (simp add: dget_dset d)
  obtain xs where "fs = PList xs" using fs by (auto simp: sort_fields_def bind_err_Inr)
  then have hk: "has_key c ''fields''" using gf' dget_PList_has_key by simp
  have "dset c ''fields'' fs = c" by (rule dset_same[OF hk gf])
  then show ?thesis
    by (simp add: canon_entity_def dc gf sort_fields_idem[OF fs] sort_member_idem[OF c])
qed

lemma canon_term_idem:
  assumes "canon_term t = Inr c"
  shows "canon_term c = Inr c"
proof -
  from assms have d: "is_dict t" by (auto simp: canon_term_def split: if_splits)
  from assms d obtain c1 where c1: "sort_member ''related_fields'' t = Inr c1"
    and c: "sort_member ''tags'' c1 = Inr c"
    by (auto simp: canon_term_def bind_err_Inr)
  have d1: "is_dict c1" using sort_member_is_dict[OF c1] d by simp
  have dc: "is_dict c" using sort_member_is_dict[OF c] d1 by simp
  have i1: "sort_member ''related_fields'' c1 = Inr c1" by (rule sort_member_idem[OF c1])
  have "sort_member ''related_fields'' c = Inr c"
  proof (cases "dget c1 ''related_fields'' PNone")
    case (PList xs)
    have g: "dget c ''related_fields'' PNone = PList xs"
      using sort_member_other[OF c, of "''related_fields''"] PList by simp
    from i1 PList obtain ys where ys: "sorted_plain xs = Inr ys"
      and e1: "c1 = dset c1 ''related_fields'' (PList ys)"
      by (auto simp: sort_member_def bind_err_Inr)
    have "PList ys = PList xs"
      using e1 PList dget_dset[OF d1, of "''related_fields''" "PList ys" "''related_fields''" PNone]
      by simp
    then have yx: "ys = xs" by simp
    have "dset c ''related_fields'' (PList xs) = c"
      by (rule dset_same[OF dget_PList_has_key[OF g] g])
    then show ?thesis using ys yx by (simp add: sort_member_def g)
  next
    case PNone
    then show ?thesis using sort_member_other[OF c, of "''related_fields''" PNone]
      by (simp add: sort_member_def)
  next
    case (PBool x)
    then show ?thesis using sort_member_other[OF c, of "''related_fields''" PNone]
      by (simp add: sort_member_def)
  next
    case (PInt x)
    then show ?thesis using sort_member_other[OF c, of "''related_fields''" PNone]
      by (simp add: sort_member_def)
  next
    case (PStr x)
    then show ?thesis using sort_member_other[OF c, of "''related_fields''" PNone]
      by (simp add: sort_member_def)
  next
    case (PDict x)
    then show ?thesis using sort_member_other[OF c, of "''related_fields''" PNone]
      by (simp add: sort_member_def)
  qed
  then show ?thesis by (simp add: canon_term_def dc sort_member_idem[OF c])
qed

lemma map_err_fixed: "(\<And>y. y \<in> set ys \<Longrightarrow> g y = Inr y) \<Longrightarrow> map_err g ys = Inr ys"
  by (induction ys) simp_all

lemma map_err_results:
  "map_err g xs = Inr ys \<Longrightarrow> y \<in> set ys \<Longrightarrow> \<exists>x\<in>set xs. g x = Inr y"
  by (induction xs arbitrary: ys) (auto simp: bind_err_Inr)

lemma sort_entities_idem:
  assumes "sort_entities v = Inr w"
  shows "sort_entities w = Inr w"
proof -
  from assms obtain items cs xs where it: "py_iter v = Inr items"
    and cs: "map_err canon_entity items = Inr cs"
    and xs: "sorted_by ''name'' cs = Inr xs" and w: "w = PList xs"
    by (auto simp: sort_entities_def bind_err_Inr)
  have fixed: "canon_entity y = Inr y" if "y \<in> set xs" for y
  proof -
    from that sorted_by_set[OF xs] have "y \<in> set cs" by simp
    from map_err_results[OF cs this] obtain x where "canon_entity x = Inr y" by auto
    then show ?thesis by (rule canon_entity_idem)
  qed
  have "map_err canon_entity xs = Inr xs" by (rule map_err_fixed) (rule fixed)
  then show ?thesis
    by (simp add: sort_entities_def w py_iter_def sorted_by_idem[OF xs])
qed

lemma sort_glossary_idem:
  assumes "sort_glossary v = Inr w"
  shows "sort_glossary w = Inr w"
proof -
  from assms obtain items cs xs where it: "py_iter v = Inr items"
    and cs: "map_err canon_term items = Inr cs"
    and xs: "sorted_by ''term'' cs = Inr xs" and w: "w = PList xs"
    by (auto simp: sort_glossary_def bind_err_Inr)
  have fixed: "canon_term y = Inr y" if "y \<in> set xs" for y
  proof -
    from that sorted_by_set[OF xs] have "y \<in> set cs" by simp
    from map_err_results[OF cs this] obtain x where "canon_term x = Inr y" by auto
    then show ?thesis by (rule canon_term_idem)
  qed
  have "map_err canon_term xs = Inr xs" by (rule map_err_fixed) (rule fixed)
  then show ?thesis
    by (simp add: sort_glossary_def w py_iter_def sorted_by_idem[OF xs])
qed

lemma sort_relationships_idem: "sort_relationships v = Inr w \<Longrightarrow> sort_relationships w = Inr w"
  by (auto simp: sort_relationships_def bind_err_Inr py_iter_def dest: sorted_by_tuple_idem)

lemma sort_rules_idem: "sort_rules v = Inr w \<Longrightarrow> sort_rules w = Inr w"
  by (auto simp: sort_rules_def bind_err_Inr py_iter_def dest: sorted_by_tuple_idem)

lemma sort_indexes_idem: "sort_indexes v = Inr w \<Longrightarrow> sort_indexes w = Inr w"
  by (auto simp: sort_indexes_def bind_err_Inr py_iter_def dest: sorted_by_tuple_idem)

lemma is_dict_rekey [simp]: "is_dict (rekey k g) = is_dict g"
  by (simp add: rekey_def split: pyval.splits)

lemma dget_rekey_other: "k' \<noteq> k \<Longrightarrow> dget (rekey k g) k' dflt = dget g k' dflt"
  by (cases g) (auto simp: rekey_def dget_def dset_def update_conv' split: pyval.splits)

lemma rekey_fixed:
  assumes "\<And>kvs. dget g k PNone = PDict kvs \<Longrightarrow> sort_key fst kvs = kvs"
  shows "rekey k g = g"
proof (cases "dget g k PNone")
  case (PDict kvs)
  then have "dset g k (PDict kvs) = g" by (intro dset_same[where dflt = PNone] dget_PDict_has_key)
  then show ?thesis using PDict assms by (simp add: rekey_def)
qed (simp_all add: rekey_def)

lemma dget_rekey_same:
  "dget (rekey k g) k PNone = PDict kvs \<Longrightarrow> sort_key fst kvs = kvs"
proof (cases "dget g k PNone")
  case (PDict old)
  assume a: "dget (rekey k g) k PNone = PDict kvs"
  have "is_dict g" using PDict by (cases g) (simp_all add: dget_def is_dict_def)
  with a PDict have "kvs = sort_key fst old" by (simp add: rekey_def dget_dset)
  then show ?thesis by (simp add: sort_key_twice)
qed (simp_all add: rekey_def)

lemma governance_idem:
  "rekey ''stewards'' (rekey ''classification'' (rekey ''stewards'' (rekey ''classification'' g)))
     = rekey ''stewards'' (rekey ''classification'' g)"
proof -
  let ?g1 = "rekey ''classification'' g"
  let ?g2 = "rekey ''stewards'' ?g1"
  have "rekey ''classification'' ?g2 = ?g2"
  proof (rule rekey_fixed)
    fix kvs assume "dget ?g2 ''classification'' PNone = PDict kvs"
    then have "dget ?g1 ''classification'' PNone = PDict kvs" by (simp add: dget_rekey_other)
    then show "sort_key fst kvs = kvs" by (rule dget_rekey_same)
  qed
  moreover have "rekey ''stewards'' ?g2 = ?g2"
    by (rule rekey_fixed) (rule dget_rekey_same)
  ultimately show ?thesis by simp
qed

lemma dget_PDict: "dget (PDict kvs) k d = (case map_of kvs k of Some v \<Rightarrow> v | None \<Rightarrow> d)"
  by (simp add: dget_def)

lemma is_dict_PDict [simp]: "is_dict (PDict kvs)"
  by (simp add: is_dict_def)

theorem compile_model_idempotent:
  assumes "compile_model m = Inr c"
  shows "compile_model c = Inr c"
proof -
  from assms have dm: "is_dict m" by (auto simp: compile_model_def split: if_splits)
  let ?gov = "dget m ''governance'' (PDict [])"
  let ?blk = "dget m ''model'' (PDict [])"
  from assms dm obtain es rs ix ru gl bl where
    es: "sort_entities (dget m ''entities'' (PList [])) = Inr es" and
    rs: "sort_relationships (dget m ''relationships'' (PList [])) = Inr rs" and
    ix: "sort_indexes (dget m ''indexes'' (PList [])) = Inr ix" and
    ru: "sort_rules (dget m ''rules'' (PList [])) = Inr ru" and
    dg: "is_dict ?gov" and
    gl: "sort_glossary (dget m ''glossary'' (PList [])) = Inr gl" and
    db: "is_dict ?blk" and
    bl: "sort_member ''owners'' ?blk = Inr bl" and
    c: "c = PDict [(''model'', bl), (''entities'', es), (''relationships'', rs),
          (''indexes'', ix), (''rules'', ru),
          (''governance'', rekey ''stewards'' (rekey ''classification'' ?gov)),
          (''glossary'', gl), (''display'', dget m ''display'' (PDict []))]"
    by (auto simp: compile_model_def bind_err_Inr split: if_splits)
  have dbl: "is_dict bl" using sort_member_is_dict[OF bl] db by simp
  show ?thesis
    unfolding c compile_model_def
    by (simp add: dget_PDict
        sort_entities_idem[OF es] sort_relationships_idem[OF rs] sort_indexes_idem[OF ix]
        sort_rules_idem[OF ru] sort_glossary_idem[OF gl] sort_member_idem[OF bl]
        dbl dg governance_idem)
qed

lemma filter_inj_eq:
  assumes "inj_on f (set xs)" "k \<in> set xs"
  shows "filter (\<lambda>x. f k = f x) xs = filter (\<lambda>x. k = x) xs"
  using assms by (intro filter_cong) (auto simp: inj_on_def)

lemma filter_eq_replicate: "filter (\<lambda>x. k = x) xs = replicate (count (mset xs) k) k"
  by (induction xs) auto

lemma sort_key_perm:
  assumes ms: "mset ys = mset xs" and inj: "inj_on f (set xs)"
  shows "sort_key f ys = sort_key f xs"
proof (rule sym, rule properties_for_sort_key)
  show "mset (sort_key f ys) = mset xs" using ms by simp
  show "sorted (map f (sort_key f ys))" by simp
  fix k assume k: "k \<in> set (sort_key f ys)"
  have sxy: "set ys = set xs" using ms by (metis set_mset_mset)
  have "filter (\<lambda>x. f k = f x) (sort_key f ys) = filter (\<lambda>x. f k = f x) ys"
    using sort_key_stable[of f "f k" ys] by (simp add: eq_commute)
  also have "\<dots> = filter (\<lambda>x. k = x) ys"
    using filter_inj_eq[of f ys k] inj k sxy by simp
  also have "\<dots> = filter (\<lambda>x. k = x) xs"
    using ms by (simp add: filter_eq_replicate)
  also have "\<dots> = filter (\<lambda>x. f k = f x) xs"
    using filter_inj_eq[of f xs k] inj k sxy by simp
  finally show "filter (\<lambda>x. f k = f x) (sort_key f ys) = filter (\<lambda>x. f k = f x) xs" .
qed

lemma mset_eq_facts: "mset ys = mset xs \<Longrightarrow> length ys = length xs \<and> set ys = set xs"
  by (metis mset_eq_length mset_eq_setD)

lemma sorted_plain_perm:
  assumes "mset ys = mset xs" "inj_on rank (set xs)"
  shows "sorted_plain ys = sorted_plain xs"
proof -
  have f: "length ys = length xs" "set ys = set xs" using mset_eq_facts[OF assms(1)] by simp_all
  have "orderable ys = orderable xs" by (rule orderable_cong) (simp_all add: f)
  then show ?thesis by (simp add: sorted_plain_def sort_key_perm[OF assms])
qed

lemma sorted_by_perm:
  assumes "mset ys = mset xs" "inj_on (\<lambda>i. rank (key1 k i)) (set xs)"
  shows "sorted_by k ys = sorted_by k xs"
proof -
  have f: "length ys = length xs" "set ys = set xs" using mset_eq_facts[OF assms(1)] by simp_all
  have "orderable (map (key1 k) ys) = orderable (map (key1 k) xs)"
    by (rule orderable_cong) (simp_all add: f)
  then show ?thesis
    by (simp add: sorted_by_def list_all_iff f sort_key_perm[OF assms])
qed

lemma sorted_by_tuple_perm:
  assumes "mset ys = mset xs" "inj_on (\<lambda>i. map rank (keys_of ks i)) (set xs)"
  shows "sorted_by_tuple ks ys = sorted_by_tuple ks xs"
proof -
  have f: "length ys = length xs" "set ys = set xs" using mset_eq_facts[OF assms(1)] by simp_all
  have "orderable_tuples (map (keys_of ks) ys) = orderable_tuples (map (keys_of ks) xs)"
    by (rule orderable_tuples_cong) (simp_all add: f)
  then show ?thesis
    by (simp add: sorted_by_tuple_def list_all_iff f sort_key_perm[OF assms])
qed

lemma not_raised: "r \<noteq> Inl Raised \<Longrightarrow> r = Inr (projr r)" for r :: "py_error + 'a"
proof (cases r)
  case (Inl e)
  assume "r \<noteq> Inl Raised"
  with Inl show ?thesis by (cases e) simp
qed simp

text \<open>The list a loop builds depends on the items only through the results of the body.\<close>

lemma map_err_closed:
  "map_err g xs =
     (if list_all (\<lambda>r. r \<noteq> Inl Raised) (map g xs) then Inr (map projr (map g xs))
      else Inl Raised)"
proof (induction xs)
  case Nil
  show ?case by simp
next
  case (Cons x xs)
  show ?case
  proof (cases "g x = Inl Raised")
    case True
    then show ?thesis by simp
  next
    case False
    then obtain y where y: "g x = Inr y" using not_raised by blast
    show ?thesis using Cons.IH by (simp add: y)
  qed
qed

lemma map_err_update:
  assumes "i < length xs" "g e' = g (xs ! i)"
  shows "map_err g (xs[i := e']) = map_err g xs"
proof -
  have "map g (xs[i := e']) = map g xs"
    using assms by (simp add: map_update list_update_same_conv)
  then show ?thesis by (simp only: map_err_closed)
qed

lemma sorted_by_map_perm:
  assumes ms: "mset ys = mset xs" and inj: "inj_on (\<lambda>i. rank (key1 k i)) (set xs)"
    and keep: "\<And>e. e \<in> set xs \<Longrightarrow> key1 k (h e) = key1 k e"
  shows "sorted_by k (map h ys) = sorted_by k (map h xs)"
proof (rule sorted_by_perm)
  show "mset (map h ys) = mset (map h xs)" using ms by (metis mset_map)
  show "inj_on (\<lambda>i. rank (key1 k i)) (set (map h xs))"
  proof (rule inj_onI)
    fix a b assume "a \<in> set (map h xs)" "b \<in> set (map h xs)"
      and eq: "rank (key1 k a) = rank (key1 k b)"
    then obtain x y where x: "x \<in> set xs" "a = h x" and y: "y \<in> set xs" "b = h y" by auto
    with eq keep have "rank (key1 k x) = rank (key1 k y)" by simp
    with inj x y have "x = y" by (auto dest: inj_onD)
    then show "a = b" using x y by simp
  qed
qed

lemma map_err_perm_sorted:
  assumes ms: "mset ys = mset xs" and inj: "inj_on (\<lambda>i. rank (key1 k i)) (set xs)"
    and keep: "\<And>e c. g e = Inr c \<Longrightarrow> key1 k c = key1 k e"
  shows "bind_err (map_err g ys) (\<lambda>cs. bind_err (sorted_by k cs) F)
       = bind_err (map_err g xs) (\<lambda>cs. bind_err (sorted_by k cs) F)"
proof -
  have f: "set ys = set xs" using mset_eq_facts[OF ms] by simp
  show ?thesis
  proof (cases "list_all (\<lambda>r. r \<noteq> Inl Raised) (map g xs)")
    case False
    then have "\<not> list_all (\<lambda>r. r \<noteq> Inl Raised) (map g ys)" by (simp add: list_all_iff f)
    with False have "map_err g xs = Inl Raised" "map_err g ys = Inl Raised"
      by (simp_all only: map_err_closed if_False)
    then show ?thesis by simp
  next
    case True
    have k: "key1 k (projr (g e)) = key1 k e" if "e \<in> set xs" for e
    proof -
      from that True have "g e \<noteq> Inl Raised" by (auto simp: list_all_iff)
      then have "g e = Inr (projr (g e))" by (rule not_raised)
      then show ?thesis by (rule keep)
    qed
    have "sorted_by k (map (\<lambda>e. projr (g e)) ys) = sorted_by k (map (\<lambda>e. projr (g e)) xs)"
      by (rule sorted_by_map_perm[OF ms inj]) (rule k)
    moreover have "list_all (\<lambda>r. r \<noteq> Inl Raised) (map g ys)"
      using True by (simp add: list_all_iff f)
    then have "map_err g ys = Inr (map (\<lambda>e. projr (g e)) ys)"
      by (simp add: map_err_closed comp_def)
    moreover have "map_err g xs = Inr (map (\<lambda>e. projr (g e)) xs)"
      using True by (simp add: map_err_closed comp_def)
    ultimately show ?thesis by simp
  qed
qed

lemma update_commute:
  "k \<noteq> k' \<Longrightarrow> k' \<in> fst ` set al \<Longrightarrow>
     AList.update k v (AList.update k' v' al) = AList.update k' v' (AList.update k v al)"
  by (induction al) auto

lemma dset_commute:
  assumes "k \<noteq> k'" "has_key d k'"
  shows "dset (dset d k' v') k v = dset (dset d k v) k' v'"
proof (cases d)
  case (PDict kvs)
  with assms(2) have "k' \<in> fst ` set kvs" by (simp add: has_key_def map_of_eq_None_iff)
  then show ?thesis
    using PDict update_commute[OF assms(1), of kvs v v'] by (simp add: dset_def)
qed (simp_all add: dset_def)

lemma dset_twice [simp]: "dset (dset d k v) k v' = dset d k v'"
  by (cases d) (simp_all add: dset_def)

lemma key1_dset: "is_dict d \<Longrightarrow> k' \<noteq> k \<Longrightarrow> key1 k' (dset d k v) = key1 k' d"
  by (simp add: key1_def dget_dset)

lemma sort_member_key: "sort_member k c = Inr c' \<Longrightarrow> k' \<noteq> k \<Longrightarrow> key1 k' c' = key1 k' c"
  by (simp add: key1_def sort_member_other)

lemma canon_entity_name: "canon_entity e = Inr c \<Longrightarrow> key1 ''name'' c = key1 ''name'' e"
  by (auto simp: canon_entity_def bind_err_Inr sort_member_key key1_dset split: if_splits)

lemma canon_term_term: "canon_term t = Inr c \<Longrightarrow> key1 ''term'' c = key1 ''term'' t"
  by (auto simp: canon_term_def bind_err_Inr sort_member_key split: if_splits)

lemma dget_is_dict: "dget d k PNone = PList xs \<Longrightarrow> is_dict d"
  by (cases d) (simp_all add: dget_def is_dict_def)

text \<open>Permuting a list that \<open>sort_member\<close> sorts does not change what it returns.\<close>

lemma sort_member_perm:
  assumes g: "dget c k PNone = PList xs" and ms: "mset ys = mset xs"
    and inj: "inj_on rank (set xs)"
  shows "sort_member k (dset c k (PList ys)) = sort_member k c"
proof -
  have d: "is_dict c" using g by (rule dget_is_dict)
  show ?thesis
    by (simp add: sort_member_def g dget_dset d sorted_plain_perm[OF ms inj])
qed

lemma sort_member_other_perm:
  assumes g: "dget c k' PNone = PList xs" and ne: "k \<noteq> k'"
  shows "sort_member k (dset c k' v) = bind_err (sort_member k c) (\<lambda>c'. Inr (dset c' k' v))"
proof -
  have d: "is_dict c" using g by (rule dget_is_dict)
  have hk: "has_key c k'" using g by (rule dget_PList_has_key)
  show ?thesis
  proof (cases "dget c k PNone")
    case (PList zs)
    show ?thesis
    proof (cases "sorted_plain zs")
      case (Inl e)
      then show ?thesis using PList ne by (simp add: sort_member_def dget_dset d)
    next
      case (Inr ws)
      then show ?thesis using PList ne
        by (simp add: sort_member_def dget_dset d dset_commute[OF ne hk])
    qed
  qed (simp_all add: sort_member_def dget_dset d ne)
qed

lemma canon_entity_fields_perm:
  assumes g: "dget e ''fields'' PNone = PList fs" and ms: "mset fs' = mset fs"
    and inj: "inj_on (\<lambda>i. rank (key1 ''name'' i)) (set fs)"
  shows "canon_entity (dset e ''fields'' (PList fs')) = canon_entity e"
proof -
  have d: "is_dict e" using g by (rule dget_is_dict)
  have g': "dget e ''fields'' (PList []) = PList fs"
    using g by (cases e) (auto simp: dget_def split: option.splits)
  show ?thesis
    by (simp add: canon_entity_def d dget_dset g' sort_fields_def py_iter_def
        sorted_by_perm[OF ms inj])
qed

lemma canon_entity_tags_perm:
  assumes g: "dget e ''tags'' PNone = PList ts" and ms: "mset ts' = mset ts"
    and inj: "inj_on rank (set ts)"
  shows "canon_entity (dset e ''tags'' (PList ts')) = canon_entity e"
proof -
  have d: "is_dict e" using g by (rule dget_is_dict)
  have hk: "has_key e ''tags''" using g by (rule dget_PList_has_key)
  have sw: "dset (dset e ''tags'' (PList ts')) ''fields'' v = dset (dset e ''fields'' v) ''tags'' (PList ts')" for v
    by (rule dset_commute) (simp_all add: hk)
  have gt: "dget (dset e ''fields'' v) ''tags'' PNone = PList ts" for v
    by (simp add: dget_dset d g)
  show ?thesis
    by (simp add: canon_entity_def d dget_dset sw sort_member_perm[OF gt ms inj])
qed

lemma canon_term_related_perm:
  assumes g: "dget t ''related_fields'' PNone = PList xs" and ms: "mset ys = mset xs"
    and inj: "inj_on rank (set xs)"
  shows "canon_term (dset t ''related_fields'' (PList ys)) = canon_term t"
proof -
  have d: "is_dict t" using g by (rule dget_is_dict)
  show ?thesis by (simp add: canon_term_def d sort_member_perm[OF g ms inj])
qed

lemma canon_term_tags_perm:
  assumes g: "dget t ''tags'' PNone = PList xs" and ms: "mset ys = mset xs"
    and inj: "inj_on rank (set xs)"
  shows "canon_term (dset t ''tags'' (PList ys)) = canon_term t"
proof -
  have d: "is_dict t" using g by (rule dget_is_dict)
  have a: "sort_member ''related_fields'' (dset t ''tags'' (PList ys))
      = bind_err (sort_member ''related_fields'' t) (\<lambda>c'. Inr (dset c' ''tags'' (PList ys)))"
    by (rule sort_member_other_perm[OF g]) simp
  show ?thesis
  proof (cases "sort_member ''related_fields'' t")
    case (Inl e)
    then show ?thesis by (simp add: canon_term_def d a)
  next
    case (Inr c1)
    have g1: "dget c1 ''tags'' PNone = PList xs"
      using sort_member_other[OF Inr, of "''tags''" PNone] g by simp
    show ?thesis by (simp add: canon_term_def d a Inr sort_member_perm[OF g1 ms inj])
  qed
qed

text \<open>
  One reordering step on a document: a permutation of one of the five top-level collections,
  of the \<^verbatim>\<open>fields\<close> or \<^verbatim>\<open>tags\<close> of one entity, of the \<^verbatim>\<open>related_fields\<close> or \<^verbatim>\<open>tags\<close> of one
  glossary term, or of \<^verbatim>\<open>model.owners\<close>.  In each case the items of the permuted list that
  have the same sort key are the same item.
\<close>

inductive reorder_step :: "pyval \<Rightarrow> pyval \<Rightarrow> bool" where
  entities:
    "dget m ''entities'' PNone = PList xs \<Longrightarrow> mset ys = mset xs \<Longrightarrow>
     inj_on (\<lambda>i. rank (key1 ''name'' i)) (set xs) \<Longrightarrow>
     reorder_step m (dset m ''entities'' (PList ys))"
| relationships:
    "dget m ''relationships'' PNone = PList xs \<Longrightarrow> mset ys = mset xs \<Longrightarrow>
     inj_on (\<lambda>i. map rank (keys_of [''name'', ''from'', ''to'', ''cardinality''] i)) (set xs) \<Longrightarrow>
     reorder_step m (dset m ''relationships'' (PList ys))"
| indexes:
    "dget m ''indexes'' PNone = PList xs \<Longrightarrow> mset ys = mset xs \<Longrightarrow>
     inj_on (\<lambda>i. map rank (keys_of [''name'', ''entity''] i)) (set xs) \<Longrightarrow>
     reorder_step m (dset m ''indexes'' (PList ys))"
| rules:
    "dget m ''rules'' PNone = PList xs \<Longrightarrow> mset ys = mset xs \<Longrightarrow>
     inj_on (\<lambda>i. map rank (keys_of [''name'', ''target''] i)) (set xs) \<Longrightarrow>
     reorder_step m (dset m ''rules'' (PList ys))"
| glossary:
    "dget m ''glossary'' PNone = PList xs \<Longrightarrow> mset ys = mset xs \<Longrightarrow>
     inj_on (\<lambda>i. rank (key1 ''term'' i)) (set xs) \<Longrightarrow>
     reorder_step m (dset m ''glossary'' (PList ys))"
| entity_fields:
    "dget m ''entities'' PNone = PList es \<Longrightarrow> i < length es \<Longrightarrow>
     dget (es ! i) ''fields'' PNone = PList fs \<Longrightarrow> mset fs' = mset fs \<Longrightarrow>
     inj_on (\<lambda>f. rank (key1 ''name'' f)) (set fs) \<Longrightarrow>
     reorder_step m (dset m ''entities'' (PList (es[i := dset (es ! i) ''fields'' (PList fs')])))"
| entity_tags:
    "dget m ''entities'' PNone = PList es \<Longrightarrow> i < length es \<Longrightarrow>
     dget (es ! i) ''tags'' PNone = PList ts \<Longrightarrow> mset ts' = mset ts \<Longrightarrow>
     inj_on rank (set ts) \<Longrightarrow>
     reorder_step m (dset m ''entities'' (PList (es[i := dset (es ! i) ''tags'' (PList ts')])))"
| term_related_fields:
    "dget m ''glossary'' PNone = PList gs \<Longrightarrow> i < length gs \<Longrightarrow>
     dget (gs ! i) ''related_fields'' PNone = PList rs \<Longrightarrow> mset rs' = mset rs \<Longrightarrow>
     inj_on rank (set rs) \<Longrightarrow>
     reorder_step m
       (dset m ''glossary'' (PList (gs[i := dset (gs ! i) ''related_fields'' (PList rs')])))"
| term_tags:
    "dget m ''glossary'' PNone = PList gs \<Longrightarrow> i < length gs \<Longrightarrow>
     dget (gs ! i) ''tags'' PNone = PList ts \<Longrightarrow> mset ts' = mset ts \<Longrightarrow>
     inj_on rank (set ts) \<Longrightarrow>
     reorder_step m (dset m ''glossary'' (PList (gs[i := dset (gs ! i) ''tags'' (PList ts')])))"
| owners:
    "dget m ''model'' PNone = block \<Longrightarrow> dget block ''owners'' PNone = PList os \<Longrightarrow>
     mset os' = mset os \<Longrightarrow> inj_on rank (set os) \<Longrightarrow>
     reorder_step m (dset m ''model'' (dset block ''owners'' (PList os')))"

lemma dget_default: "dget d k PNone = v \<Longrightarrow> v \<noteq> PNone \<Longrightarrow> dget d k dflt = v"
  by (cases d) (auto simp: dget_def split: option.splits)

lemma sort_entities_perm:
  assumes "mset ys = mset xs" "inj_on (\<lambda>i. rank (key1 ''name'' i)) (set xs)"
  shows "sort_entities (PList ys) = sort_entities (PList xs)"
  unfolding sort_entities_def py_iter_def
  using map_err_perm_sorted[OF assms, of canon_entity] canon_entity_name by simp

lemma sort_glossary_perm:
  assumes "mset ys = mset xs" "inj_on (\<lambda>i. rank (key1 ''term'' i)) (set xs)"
  shows "sort_glossary (PList ys) = sort_glossary (PList xs)"
  unfolding sort_glossary_def py_iter_def
  using map_err_perm_sorted[OF assms, of canon_term] canon_term_term by simp

lemma sort_entities_update:
  "i < length es \<Longrightarrow> canon_entity e' = canon_entity (es ! i) \<Longrightarrow>
     sort_entities (PList (es[i := e'])) = sort_entities (PList es)"
  by (simp add: sort_entities_def py_iter_def map_err_update)

lemma sort_glossary_update:
  "i < length gs \<Longrightarrow> canon_term t' = canon_term (gs ! i) \<Longrightarrow>
     sort_glossary (PList (gs[i := t'])) = sort_glossary (PList gs)"
  by (simp add: sort_glossary_def py_iter_def map_err_update)

lemma compile_model_dset_entities:
  assumes "is_dict m" "sort_entities v = sort_entities (dget m ''entities'' (PList []))"
  shows "compile_model (dset m ''entities'' v) = compile_model m"
  using assms unfolding compile_model_def by (simp add: dget_dset cong: if_cong)

lemma compile_model_dset_relationships:
  assumes "is_dict m" "sort_relationships v = sort_relationships (dget m ''relationships'' (PList []))"
  shows "compile_model (dset m ''relationships'' v) = compile_model m"
  using assms unfolding compile_model_def by (simp add: dget_dset cong: if_cong)

lemma compile_model_dset_indexes:
  assumes "is_dict m" "sort_indexes v = sort_indexes (dget m ''indexes'' (PList []))"
  shows "compile_model (dset m ''indexes'' v) = compile_model m"
  using assms unfolding compile_model_def by (simp add: dget_dset cong: if_cong)

lemma compile_model_dset_rules:
  assumes "is_dict m" "sort_rules v = sort_rules (dget m ''rules'' (PList []))"
  shows "compile_model (dset m ''rules'' v) = compile_model m"
  using assms unfolding compile_model_def by (simp add: dget_dset cong: if_cong)

lemma compile_model_dset_glossary:
  assumes "is_dict m" "sort_glossary v = sort_glossary (dget m ''glossary'' (PList []))"
  shows "compile_model (dset m ''glossary'' v) = compile_model m"
  using assms unfolding compile_model_def by (simp add: dget_dset cong: if_cong)

lemma compile_model_dset_model:
  assumes "is_dict m" "is_dict v = is_dict (dget m ''model'' (PDict []))"
    "sort_member ''owners'' v = sort_member ''owners'' (dget m ''model'' (PDict []))"
  shows "compile_model (dset m ''model'' v) = compile_model m"
  using assms unfolding compile_model_def by (simp add: dget_dset cong: if_cong)

lemma reorder_step_compile: "reorder_step m m' \<Longrightarrow> compile_model m' = compile_model m"
proof (induction rule: reorder_step.induct)
  case (entities m xs ys)
  have d: "is_dict m" using entities(1) by (rule dget_is_dict)
  have g: "dget m ''entities'' (PList []) = PList xs" using entities(1) by (rule dget_default) simp
  show ?case
    by (rule compile_model_dset_entities[OF d]) (simp_all add: g sort_entities_perm[OF entities(2,3)])
next
  case (relationships m xs ys)
  have d: "is_dict m" using relationships(1) by (rule dget_is_dict)
  have g: "dget m ''relationships'' (PList []) = PList xs"
    using relationships(1) by (rule dget_default) simp
  show ?case
    by (rule compile_model_dset_relationships[OF d])
       (simp_all add: g sort_relationships_def py_iter_def
          sorted_by_tuple_perm[OF relationships(2,3)])
next
  case (indexes m xs ys)
  have d: "is_dict m" using indexes(1) by (rule dget_is_dict)
  have g: "dget m ''indexes'' (PList []) = PList xs" using indexes(1) by (rule dget_default) simp
  show ?case
    by (rule compile_model_dset_indexes[OF d])
       (simp_all add: g sort_indexes_def py_iter_def sorted_by_tuple_perm[OF indexes(2,3)])
next
  case (rules m xs ys)
  have d: "is_dict m" using rules(1) by (rule dget_is_dict)
  have g: "dget m ''rules'' (PList []) = PList xs" using rules(1) by (rule dget_default) simp
  show ?case
    by (rule compile_model_dset_rules[OF d])
       (simp_all add: g sort_rules_def py_iter_def sorted_by_tuple_perm[OF rules(2,3)])
next
  case (glossary m xs ys)
  have d: "is_dict m" using glossary(1) by (rule dget_is_dict)
  have g: "dget m ''glossary'' (PList []) = PList xs" using glossary(1) by (rule dget_default) simp
  show ?case
    by (rule compile_model_dset_glossary[OF d]) (simp_all add: g sort_glossary_perm[OF glossary(2,3)])
next
  case (entity_fields m es i fs fs')
  have d: "is_dict m" using entity_fields(1) by (rule dget_is_dict)
  have g: "dget m ''entities'' (PList []) = PList es"
    using entity_fields(1) by (rule dget_default) simp
  have c: "canon_entity (dset (es ! i) ''fields'' (PList fs')) = canon_entity (es ! i)"
    by (rule canon_entity_fields_perm[OF entity_fields(3,4,5)])
  show ?case
    by (rule compile_model_dset_entities[OF d])
       (simp_all add: g sort_entities_update[OF entity_fields(2) c])
next
  case (entity_tags m es i ts ts')
  have d: "is_dict m" using entity_tags(1) by (rule dget_is_dict)
  have g: "dget m ''entities'' (PList []) = PList es"
    using entity_tags(1) by (rule dget_default) simp
  have c: "canon_entity (dset (es ! i) ''tags'' (PList ts')) = canon_entity (es ! i)"
    by (rule canon_entity_tags_perm[OF entity_tags(3,4,5)])
  show ?case
    by (rule compile_model_dset_entities[OF d])
       (simp_all add: g sort_entities_update[OF entity_tags(2) c])
next
  case (term_related_fields m gs i rs rs')
  have d: "is_dict m" using term_related_fields(1) by (rule dget_is_dict)
  have g: "dget m ''glossary'' (PList []) = PList gs"
    using term_related_fields(1) by (rule dget_default) simp
  have c: "canon_term (dset (gs ! i) ''related_fields'' (PList rs')) = canon_term (gs ! i)"
    by (rule canon_term_related_perm[OF term_related_fields(3,4,5)])
  show ?case
    by (rule compile_model_dset_glossary[OF d])
       (simp_all add: g sort_glossary_update[OF term_related_fields(2) c])
next
  case (term_tags m gs i ts ts')
  have d: "is_dict m" using term_tags(1) by (rule dget_is_dict)
  have g: "dget m ''glossary'' (PList []) = PList gs"
    using term_tags(1) by (rule dget_default) simp
  have c: "canon_term (dset (gs ! i) ''tags'' (PList ts')) = canon_term (gs ! i)"
    by (rule canon_term_tags_perm[OF term_tags(3,4,5)])
  show ?case
    by (rule compile_model_dset_glossary[OF d])
       (simp_all add: g sort_glossary_update[OF term_tags(2) c])
next
  case (owners m block os os')
  have db: "is_dict block" using owners(2) by (rule dget_is_dict)
  then have nb: "block \<noteq> PNone" by (auto simp: is_dict_def)
  have d: "is_dict m" using owners(1) nb by (cases m) (auto simp: dget_def is_dict_def)
  have g: "dget m ''model'' (PDict []) = block" using owners(1) nb by (rule dget_default)
  show ?case
    by (rule compile_model_dset_model[OF d])
       (simp_all add: g db sort_member_perm[OF owners(2,3,4)])
qed


subsection \<open>Examples for the canonicaliser\<close>

definition index_doc :: "pyval list \<Rightarrow> pyval" where
  "index_doc columns = PDict [
     (''model'', PDict [(''name'', PStr ''m'')]),
     (''indexes'', PList [PDict [(''name'', PStr ''idx''), (''entity'', PStr ''T''),
                                 (''fields'', PList columns)]])]"

lemmas canon_eval =
  compile_model_def sort_entities_def sort_relationships_def sort_indexes_def sort_rules_def
  sort_glossary_def sort_fields_def sort_member_def canon_entity_def canon_term_def rekey_def
  sorted_by_def sorted_by_tuple_def sorted_plain_def orderable_def orderable_tuples_def
  py_iter_def dget_def dset_def is_dict_def key1_def keys_of_def cls_def

definition two_entities :: pyval where
  "two_entities = PDict [
     (''model'', PDict [(''name'', PStr ''m'')]),
     (''entities'', PList [PDict [(''name'', PStr ''B'')], PDict [(''name'', PStr ''A'')]])]"

definition two_entities_swapped :: pyval where
  "two_entities_swapped = PDict [
     (''model'', PDict [(''name'', PStr ''m'')]),
     (''entities'', PList [PDict [(''name'', PStr ''A'')], PDict [(''name'', PStr ''B'')]])]"

definition two_entities_canonical :: pyval where
  "two_entities_canonical = PDict [
     (''model'', PDict [(''name'', PStr ''m'')]),
     (''entities'', PList [PDict [(''name'', PStr ''A''), (''fields'', PList [])],
                           PDict [(''name'', PStr ''B''), (''fields'', PList [])]]),
     (''relationships'', PList []), (''indexes'', PList []), (''rules'', PList []),
     (''governance'', PDict []), (''glossary'', PList []), (''display'', PDict [])]"

lemma le_rank_str [simp]: "((1::nat, 0::int, s) \<le> (1, 0, t)) = (s \<le> t)"
  by (simp add: less_eq_prod_def) 


text \<open>
  C1.  Canonicalisation is idempotent: when \<^verbatim>\<open>compile_model\<close> returns \<open>c\<close> on a document,
  it returns \<open>c\<close> on \<open>c\<close>.  It is insensitive to the order of the lists it sorts: a document
  obtained by any number of reordering steps (a permutation of \<^verbatim>\<open>entities\<close>,
  \<^verbatim>\<open>relationships\<close>, \<^verbatim>\<open>indexes\<close>, \<^verbatim>\<open>rules\<close> or \<^verbatim>\<open>glossary\<close>, of the \<^verbatim>\<open>fields\<close> or \<^verbatim>\<open>tags\<close>
  of an entity, of the \<^verbatim>\<open>related_fields\<close> or \<^verbatim>\<open>tags\<close> of a glossary term, or of
  \<^verbatim>\<open>model.owners\<close>, where the items of the permuted list with equal sort keys are identical)
  has the same result, which is the same exception when the call raises.
\<close>

theorem compile_model_canonical:
  "(compile_model m = Inr c \<longrightarrow> compile_model c = Inr c)
   \<and> (reorder_step\<^sup>*\<^sup>* m m' \<longrightarrow> compile_model m' = compile_model m)"
proof
  show "compile_model m = Inr c \<longrightarrow> compile_model c = Inr c"
    by (simp add: compile_model_idempotent)
  show "reorder_step\<^sup>*\<^sup>* m m' \<longrightarrow> compile_model m' = compile_model m"
  proof
    assume "reorder_step\<^sup>*\<^sup>* m m'"
    then show "compile_model m' = compile_model m"
      by (induction rule: rtranclp_induct) (simp_all add: reorder_step_compile)
  qed
qed

theorem compile_model_canonical_witness:
  "compile_model two_entities = Inr two_entities_canonical
   \<and> compile_model two_entities_canonical = Inr two_entities_canonical
   \<and> reorder_step\<^sup>*\<^sup>* two_entities two_entities_swapped
   \<and> compile_model two_entities_swapped = compile_model two_entities"
proof -
  have a: "compile_model two_entities = Inr two_entities_canonical"
    by (simp add: two_entities_def two_entities_canonical_def canon_eval)
  have "reorder_step two_entities (dset two_entities ''entities''
          (PList [PDict [(''name'', PStr ''A'')], PDict [(''name'', PStr ''B'')]]))"
    by (rule reorder_step.entities[where xs = "[PDict [(''name'', PStr ''B'')], PDict [(''name'', PStr ''A'')]]"])
       (simp_all add: two_entities_def dget_def key1_def)
  then have b: "reorder_step\<^sup>*\<^sup>* two_entities two_entities_swapped"
    by (simp add: two_entities_def two_entities_swapped_def dset_def)
  show ?thesis
    using a b compile_model_canonical[of two_entities two_entities_canonical two_entities_swapped]
    by simp
qed

text \<open>
  A sub-list that \<^verbatim>\<open>compile_model\<close> does not sort, such as the \<^verbatim>\<open>fields\<close> of an index, keeps
  its order, so permuting it changes the result.
\<close>

theorem index_columns_counterexample:
  "compile_model (index_doc [PStr ''a'', PStr ''b'']) \<noteq> Inl Raised
   \<and> compile_model (index_doc [PStr ''b'', PStr ''a''])
       \<noteq> compile_model (index_doc [PStr ''a'', PStr ''b''])"
  by (simp add: index_doc_def canon_eval)

section \<open>The differ\<close>


















section \<open>Objects and mutation\<close>

text \<open>
  The values above have no identity, so they cannot say whether a call changes an object
  that the caller still holds.  Here a document lives in a store of objects: an address is
  an index into the store, a list holds the addresses of its items and a mapping the
  addresses of its values under their keys.  Creating an object appends it to the store;
  an item assignment \<^verbatim>\<open>d[k] = v\<close> replaces the object at the address of \<^verbatim>\<open>d\<close>.
\<close>

datatype obj =
    ONone
  | OBool bool
  | OInt int
  | OStr string
  | OList "nat list"
  | ODict "(string \<times> nat) list"

type_synonym heap = "obj list"

definition lookup :: "heap \<Rightarrow> nat \<Rightarrow> obj" where
  "lookup h a = (if a < length h then h ! a else ONone)"

definition is_dict_at :: "heap \<Rightarrow> nat \<Rightarrow> bool" where
  "is_dict_at h a = (case lookup h a of ODict kvs \<Rightarrow> True | _ \<Rightarrow> False)"

text \<open>
  What a comparison sees of an object: a number or a string is its value; of a list or a
  mapping only the kind matters (\<open>rank\<close> does not look inside).
\<close>

definition shallow :: "obj \<Rightarrow> pyval" where
  "shallow ob = (case ob of
       ONone \<Rightarrow> PNone
     | OBool b \<Rightarrow> PBool b
     | OInt i \<Rightarrow> PInt i
     | OStr s \<Rightarrow> PStr s
     | OList xs \<Rightarrow> PList []
     | ODict kvs \<Rightarrow> PDict [])"

text \<open>
  A computation returns the store it leaves behind and either the exception it raised or
  its value.
\<close>

type_synonym 'a res = "heap \<times> (py_error + 'a)"

definition hbind :: "'a res \<Rightarrow> (heap \<Rightarrow> 'a \<Rightarrow> 'b res) \<Rightarrow> 'b res" where
  "hbind r k = (case snd r of Inl e \<Rightarrow> (fst r, Inl e) | Inr v \<Rightarrow> k (fst r) v)"

definition new_obj :: "heap \<Rightarrow> obj \<Rightarrow> nat res" where
  "new_obj h ob = (h @ [ob], Inr (length h))"

text \<open>\<^verbatim>\<open>d[k] = v\<close> for a mapping \<^verbatim>\<open>d\<close>: the one operation of the canonicaliser that changes an object.\<close>

definition setitem :: "heap \<Rightarrow> nat \<Rightarrow> string \<Rightarrow> nat \<Rightarrow> heap" where
  "setitem h d k v = (case lookup h d of
       ODict kvs \<Rightarrow> h[d := ODict (AList.update k v kvs)]
     | _ \<Rightarrow> h)"

text \<open>
  \<^verbatim>\<open>d.get(k, default)\<close> where the default is a new empty list or mapping.  The call raises
  unless \<^verbatim>\<open>d\<close> is a mapping; the default is created before the key is looked up.
\<close>

definition get_or_new :: "heap \<Rightarrow> nat \<Rightarrow> string \<Rightarrow> obj \<Rightarrow> nat res" where
  "get_or_new h d k dflt = (case lookup h d of
       ODict kvs \<Rightarrow>
         hbind (new_obj h dflt) (\<lambda>h created.
           case map_of kvs k of Some v \<Rightarrow> (h, Inr v) | None \<Rightarrow> (h, Inr created))
     | _ \<Rightarrow> (h, Inl Raised))"

text \<open>
  \<^verbatim>\<open>copy.deepcopy\<close>.  A number, a string or \<^verbatim>\<open>None\<close> is returned as it is; a list or a mapping
  is copied into a new object that holds the copies of its items.  The recursion follows
  references to objects that are older than the one that holds them, which is how a
  document that was parsed from a file is laid out; a reference that points the other way
  is reported as an exception (Python would follow it, and would also copy an object that
  is reached twice only once).
\<close>

function deepcopy :: "heap \<Rightarrow> nat \<Rightarrow> nat res"
  and deepcopy_items :: "heap \<Rightarrow> nat \<Rightarrow> nat list \<Rightarrow> (nat list) res"
where
  "deepcopy h a =
     (if \<not> a < length h then (h, Inl Raised)
      else case h ! a of
          OList xs \<Rightarrow> hbind (deepcopy_items h a xs) (\<lambda>h' ys. new_obj h' (OList ys))
        | ODict kvs \<Rightarrow>
            hbind (deepcopy_items h a (map snd kvs))
              (\<lambda>h' ys. new_obj h' (ODict (zip (map fst kvs) ys)))
        | _ \<Rightarrow> (h, Inr a))"
| "deepcopy_items h a [] = (h, Inr [])"
| "deepcopy_items h a (x # xs) =
     (if x < a then
        hbind (deepcopy h x) (\<lambda>h' y.
        hbind (deepcopy_items h' a xs) (\<lambda>h'' ys. (h'', Inr (y # ys))))
      else (h, Inl Raised))"
  by pat_completeness auto
termination
  by (relation "measures [
        (\<lambda>x. case x of Inl (h, a) \<Rightarrow> a | Inr (h, a, xs) \<Rightarrow> a),
        (\<lambda>x. case x of Inl (h, a) \<Rightarrow> 1 | Inr (h, a, xs) \<Rightarrow> 0),
        (\<lambda>x. case x of Inl (h, a) \<Rightarrow> 0 | Inr (h, a, xs) \<Rightarrow> length xs)]") auto

declare deepcopy.simps [simp del]

subsection \<open>The canonicaliser on the store\<close>

text \<open>
  The sort key \<^verbatim>\<open>item.get(k, "")\<close> as a comparison sees it, and the tuple of several such
  keys.
\<close>

definition key_at :: "heap \<Rightarrow> string \<Rightarrow> nat \<Rightarrow> pyval" where
  "key_at h k item = (case lookup h item of
       ODict kvs \<Rightarrow> (case map_of kvs k of Some v \<Rightarrow> shallow (lookup h v) | None \<Rightarrow> PStr [])
     | _ \<Rightarrow> PStr [])"

definition keys_at :: "heap \<Rightarrow> string list \<Rightarrow> nat \<Rightarrow> pyval list" where
  "keys_at h ks item = map (\<lambda>k. key_at h k item) ks"

text \<open>
  \<^verbatim>\<open>sorted\<close> returns a new list that holds the addresses of the items it was given, in
  order; the items themselves are not copied.
\<close>

definition sorted_by_heap :: "string \<Rightarrow> heap \<Rightarrow> nat list \<Rightarrow> nat res" where
  "sorted_by_heap k h items =
     (if \<not> list_all (is_dict_at h) items then (h, Inl Raised)
      else if \<not> orderable (map (key_at h k) items) then (h, Inl Raised)
      else new_obj h (OList (sort_key (\<lambda>item. rank (key_at h k item)) items)))"

definition sorted_by_tuple_heap :: "string list \<Rightarrow> heap \<Rightarrow> nat list \<Rightarrow> nat res" where
  "sorted_by_tuple_heap ks h items =
     (if \<not> list_all (is_dict_at h) items then (h, Inl Raised)
      else if \<not> orderable_tuples (map (keys_at h ks) items) then (h, Inl Raised)
      else new_obj h (OList (sort_key (\<lambda>item. map rank (keys_at h ks item)) items)))"

definition sorted_plain_heap :: "heap \<Rightarrow> nat list \<Rightarrow> nat res" where
  "sorted_plain_heap h xs =
     (if orderable (map (\<lambda>x. shallow (lookup h x)) xs)
      then new_obj h (OList (sort_key (\<lambda>x. rank (shallow (lookup h x))) xs))
      else (h, Inl Raised))"

text \<open>
  Iterating an object.  A list gives the addresses it holds.  The keys of a mapping and
  the characters of a string are strings; they are given addresses of their own here.
\<close>

definition iter_heap :: "heap \<Rightarrow> nat \<Rightarrow> (nat list) res" where
  "iter_heap h a = (case lookup h a of
       OList xs \<Rightarrow> (h, Inr xs)
     | ODict kvs \<Rightarrow>
         (h @ map (\<lambda>kv. OStr (fst kv)) kvs, Inr [length h ..< length h + length kvs])
     | OStr s \<Rightarrow> (h @ map (\<lambda>c. OStr [c]) s, Inr [length h ..< length h + length s])
     | _ \<Rightarrow> (h, Inl Raised))"

fun map_heap :: "(heap \<Rightarrow> 'a \<Rightarrow> 'b res) \<Rightarrow> heap \<Rightarrow> 'a list \<Rightarrow> ('b list) res" where
  "map_heap g h [] = (h, Inr [])"
| "map_heap g h (x # xs) =
     hbind (g h x) (\<lambda>h y. hbind (map_heap g h xs) (\<lambda>h ys. (h, Inr (y # ys))))"

definition sort_fields_heap :: "heap \<Rightarrow> nat \<Rightarrow> nat res" where
  "sort_fields_heap h field_list =
     hbind (iter_heap h field_list) (\<lambda>h items. sorted_by_heap ''name'' h items)"

text \<open>
  \<^verbatim>\<open>if k in cloned and isinstance(cloned[k], list): cloned[k] = sorted(cloned[k])\<close>, for a
  mapping \<^verbatim>\<open>cloned\<close>: the assignment changes the object \<^verbatim>\<open>cloned\<close>.
\<close>

definition sort_member_heap :: "string \<Rightarrow> heap \<Rightarrow> nat \<Rightarrow> unit res" where
  "sort_member_heap k h cloned = (case lookup h cloned of
       ODict kvs \<Rightarrow>
         (case map_of kvs k of
            Some v \<Rightarrow>
              (case lookup h v of
                 OList xs \<Rightarrow>
                   hbind (sorted_plain_heap h xs) (\<lambda>h ys. (setitem h cloned k ys, Inr ()))
               | _ \<Rightarrow> (h, Inr ()))
          | None \<Rightarrow> (h, Inr ()))
     | _ \<Rightarrow> (h, Inr ()))"

text \<open>
  The body of the loop of \<^verbatim>\<open>_sort_entities\<close>: both assignments change the copy \<^verbatim>\<open>cloned\<close>.
\<close>

definition canon_entity_heap :: "heap \<Rightarrow> nat \<Rightarrow> nat res" where
  "canon_entity_heap h entity =
     hbind (deepcopy h entity) (\<lambda>h cloned.
     hbind (get_or_new h cloned ''fields'' (OList [])) (\<lambda>h field_list.
     hbind (sort_fields_heap h field_list) (\<lambda>h sorted_fields.
     hbind (sort_member_heap ''tags'' (setitem h cloned ''fields'' sorted_fields) cloned)
       (\<lambda>h u. (h, Inr cloned)))))"

definition sort_entities_heap :: "heap \<Rightarrow> nat \<Rightarrow> nat res" where
  "sort_entities_heap h entities =
     hbind (iter_heap h entities) (\<lambda>h items.
     hbind (map_heap canon_entity_heap h items) (\<lambda>h sorted_entities.
     sorted_by_heap ''name'' h sorted_entities))"

text \<open>
  \<^verbatim>\<open>_sort_relationships\<close> and \<^verbatim>\<open>_sort_rules\<close> copy nothing: the list they return holds the
  items of the argument.  \<^verbatim>\<open>_sort_indexes\<close> sorts a copy.
\<close>

definition sort_relationships_heap :: "heap \<Rightarrow> nat \<Rightarrow> nat res" where
  "sort_relationships_heap h relationships =
     hbind (iter_heap h relationships) (\<lambda>h items.
     sorted_by_tuple_heap [''name'', ''from'', ''to'', ''cardinality''] h items)"

definition sort_rules_heap :: "heap \<Rightarrow> nat \<Rightarrow> nat res" where
  "sort_rules_heap h rules =
     hbind (iter_heap h rules) (\<lambda>h items. sorted_by_tuple_heap [''name'', ''target''] h items)"

definition sort_indexes_heap :: "heap \<Rightarrow> nat \<Rightarrow> nat res" where
  "sort_indexes_heap h indexes =
     hbind (deepcopy h indexes) (\<lambda>h copied.
     hbind (iter_heap h copied) (\<lambda>h items.
     sorted_by_tuple_heap [''name'', ''entity''] h items))"

text \<open>
  The body of the loop of \<^verbatim>\<open>_sort_glossary\<close>.  A term that is not a mapping raises, in the
  loop or in the key function of the final sort.
\<close>

definition canon_term_heap :: "heap \<Rightarrow> nat \<Rightarrow> nat res" where
  "canon_term_heap h term =
     hbind (deepcopy h term) (\<lambda>h cloned.
     if \<not> is_dict_at h cloned then (h, Inl Raised)
     else
       hbind (sort_member_heap ''related_fields'' h cloned) (\<lambda>h u.
       hbind (sort_member_heap ''tags'' h cloned) (\<lambda>h u. (h, Inr cloned))))"

definition sort_glossary_heap :: "heap \<Rightarrow> nat \<Rightarrow> nat res" where
  "sort_glossary_heap h glossary =
     hbind (iter_heap h glossary) (\<lambda>h items.
     hbind (map_heap canon_term_heap h items) (\<lambda>h sorted_terms.
     sorted_by_heap ''term'' h sorted_terms))"

text \<open>
  \<^verbatim>\<open>d = governance.get(k)\<close>, which raises unless \<^verbatim>\<open>governance\<close> is a mapping, and
  \<^verbatim>\<open>governance[k] = {key: d[key] for key in sorted(d.keys())}\<close> when \<^verbatim>\<open>d\<close> is a mapping: a new
  mapping is stored in \<^verbatim>\<open>governance\<close>.
\<close>

definition rekey_heap :: "string \<Rightarrow> heap \<Rightarrow> nat \<Rightarrow> unit res" where
  "rekey_heap k h governance = (case lookup h governance of
       ODict kvs \<Rightarrow>
         (case map_of kvs k of
            Some v \<Rightarrow>
              (case lookup h v of
                 ODict d \<Rightarrow>
                   hbind (new_obj h (ODict (sort_key fst d)))
                     (\<lambda>h sorted_d. (setitem h governance k sorted_d, Inr ()))
               | _ \<Rightarrow> (h, Inr ()))
          | None \<Rightarrow> (h, Inr ()))
     | _ \<Rightarrow> (h, Inl Raised))"

text \<open>
  \<^verbatim>\<open>compile_model\<close>, statement by statement.  The mapping \<^verbatim>\<open>canonical\<close> is a new object; the
  assignments change \<^verbatim>\<open>canonical\<close>, the copy \<^verbatim>\<open>governance\<close> and the copy \<^verbatim>\<open>canonical["model"]\<close>.
\<close>

definition compile_model_heap :: "heap \<Rightarrow> nat \<Rightarrow> nat res" where
  "compile_model_heap h model =
     hbind (get_or_new h model ''model'' (ODict [])) (\<lambda>h model_block.
     hbind (deepcopy h model_block) (\<lambda>h block.
     hbind (get_or_new h model ''entities'' (OList [])) (\<lambda>h entities.
     hbind (sort_entities_heap h entities) (\<lambda>h sorted_entities.
     hbind (get_or_new h model ''relationships'' (OList [])) (\<lambda>h relationships.
     hbind (sort_relationships_heap h relationships) (\<lambda>h sorted_relationships.
     hbind (get_or_new h model ''indexes'' (OList [])) (\<lambda>h indexes.
     hbind (sort_indexes_heap h indexes) (\<lambda>h sorted_indexes.
     hbind (get_or_new h model ''rules'' (OList [])) (\<lambda>h rules.
     hbind (sort_rules_heap h rules) (\<lambda>h sorted_rules.
     hbind (new_obj h (ODict [
         (''model'', block),
         (''entities'', sorted_entities),
         (''relationships'', sorted_relationships),
         (''indexes'', sorted_indexes),
         (''rules'', sorted_rules)])) (\<lambda>h canonical.
     hbind (get_or_new h model ''governance'' (ODict [])) (\<lambda>h governance_block.
     hbind (deepcopy h governance_block) (\<lambda>h governance.
     hbind (rekey_heap ''classification'' h governance) (\<lambda>h u.
     hbind (rekey_heap ''stewards'' h governance) (\<lambda>h u.
     hbind (get_or_new (setitem h canonical ''governance'' governance) model ''glossary''
              (OList [])) (\<lambda>h glossary.
     hbind (sort_glossary_heap h glossary) (\<lambda>h sorted_glossary.
     hbind (get_or_new (setitem h canonical ''glossary'' sorted_glossary) model ''display''
              (ODict [])) (\<lambda>h display.
     hbind (deepcopy h display) (\<lambda>h display_copy.
     if \<not> is_dict_at h block then (setitem h canonical ''display'' display_copy, Inl Raised)
     else
       hbind (sort_member_heap ''owners'' (setitem h canonical ''display'' display_copy) block)
         (\<lambda>h u. (h, Inr canonical)))))))))))))))))))))"

subsection \<open>What a call leaves unchanged\<close>

text \<open>
  \<open>extends H h\<close>: the store \<open>h\<close> holds every object of \<open>H\<close>, unchanged, at its address.
  \<open>fresh H c\<close>: the address \<open>c\<close> is not that of a mapping of \<open>H\<close>.
\<close>

definition extends :: "heap \<Rightarrow> heap \<Rightarrow> bool" where
  "extends H h \<longleftrightarrow> length H \<le> length h \<and> take (length H) h = H"

definition fresh :: "heap \<Rightarrow> nat \<Rightarrow> bool" where
  "fresh H c \<longleftrightarrow> \<not> (c < length H \<and> is_dict_at H c)"

lemma extends_refl: "extends h h"
  by (simp add: extends_def)

lemma extends_append: "extends H h \<Longrightarrow> extends H (h @ t)"
  by (simp add: extends_def)

lemma extends_lookup: "extends H h \<Longrightarrow> c < length H \<Longrightarrow> lookup h c = lookup H c"
  unfolding extends_def lookup_def
  by (metis (no_types, lifting) le_trans not_le nth_take order_less_le_trans)

lemma extends_length: "extends H h \<Longrightarrow> length H \<le> length h"
  by (simp add: extends_def)

lemma fresh_new: "length H \<le> c \<Longrightarrow> fresh H c"
  by (simp add: fresh_def)

lemma extends_update:
  assumes "extends H h" "length H \<le> d"
  shows "extends H (h[d := ob])"
  using assms by (simp add: extends_def)

lemma extends_setitem:
  assumes "extends H h" "fresh H d"
  shows "extends H (setitem h d k v)"
proof (cases "d < length H")
  case True
  then have "lookup h d = lookup H d" using assms(1) by (simp add: extends_lookup)
  moreover have "\<not> is_dict_at H d" using True assms(2) by (simp add: fresh_def)
  ultimately show ?thesis using assms(1)
    by (simp add: setitem_def is_dict_at_def split: obj.splits)
next
  case False
  then show ?thesis using assms(1)
    by (simp add: setitem_def extends_update split: obj.splits)
qed

lemma extends_hbind:
  assumes "extends H (fst r)"
    and "\<And>h v. r = (h, Inr v) \<Longrightarrow> extends H h \<Longrightarrow> extends H (fst (k h v))"
  shows "extends H (fst (hbind r k))"
proof (cases r)
  case (Pair h x)
  then show ?thesis using assms by (cases x) (simp_all add: hbind_def)
qed

lemma extends_new_obj: "extends H h \<Longrightarrow> extends H (fst (new_obj h ob))"
  by (simp add: new_obj_def extends_append)

lemma new_obj_fresh: "new_obj h ob = (h', Inr c) \<Longrightarrow> extends H h \<Longrightarrow> fresh H c"
  by (auto simp: new_obj_def fresh_def extends_def)

lemma extends_get_or_new: "extends H h \<Longrightarrow> extends H (fst (get_or_new h d k dflt))"
  by (simp add: get_or_new_def hbind_def new_obj_def extends_append
      split: obj.splits option.splits)

lemma get_or_new_dict: "get_or_new h d k dflt = (h', Inr v) \<Longrightarrow> is_dict_at h d"
  by (auto simp: get_or_new_def is_dict_at_def split: obj.splits)

lemma extends_iter: "extends H h \<Longrightarrow> extends H (fst (iter_heap h a))"
  by (simp add: iter_heap_def extends_append split: obj.splits)

lemma extends_sorted_by: "extends H h \<Longrightarrow> extends H (fst (sorted_by_heap k h items))"
  by (simp add: sorted_by_heap_def extends_new_obj)

lemma extends_sorted_by_tuple:
  "extends H h \<Longrightarrow> extends H (fst (sorted_by_tuple_heap ks h items))"
  by (simp add: sorted_by_tuple_heap_def extends_new_obj)

lemma extends_sorted_plain: "extends H h \<Longrightarrow> extends H (fst (sorted_plain_heap h xs))"
  by (simp add: sorted_plain_heap_def extends_new_obj)

lemma extends_map_heap:
  assumes "\<And>h x. extends H h \<Longrightarrow> extends H (fst (g h x))"
  shows "extends H h \<Longrightarrow> extends H (fst (map_heap g h xs))"
proof (induction xs arbitrary: h)
  case Nil
  then show ?case by simp
next
  case (Cons x xs)
  show ?case
    unfolding map_heap.simps
    by (intro extends_hbind assms Cons.prems Cons.IH) simp_all
qed

text \<open>A copy changes no object, and the copy of a mapping is a new object.\<close>

lemma extends_deepcopy_both:
  shows "extends H h \<Longrightarrow> extends H (fst (deepcopy h a))"
    and "extends H h' \<Longrightarrow> extends H (fst (deepcopy_items h' b xs))"
proof (induction h a and h' b xs rule: deepcopy_deepcopy_items.induct)
  case (1 h a)
  show ?case
  proof (cases "a < length h")
    case False
    then show ?thesis using "1.prems" by (simp add: deepcopy.simps)
  next
    case True
    have items: "extends H (fst (deepcopy_items h a xs))" if "h ! a = OList xs" for xs
      using "1.IH"(1)[OF _ that "1.prems"] True by simp
    have vals: "extends H (fst (deepcopy_items h a (map snd kvs)))" if "h ! a = ODict kvs" for kvs
      using "1.IH"(2)[OF _ that "1.prems"] True by simp
    show ?thesis
    proof (cases "h ! a")
      case (OList xs)
      have "extends H (fst (hbind (deepcopy_items h a xs) (\<lambda>h' ys. new_obj h' (OList ys))))"
        by (rule extends_hbind[OF items[OF OList]]) (rule extends_new_obj)
      then show ?thesis using True OList by (simp add: deepcopy.simps)
    next
      case (ODict kvs)
      have "extends H (fst (hbind (deepcopy_items h a (map snd kvs))
               (\<lambda>h' ys. new_obj h' (ODict (zip (map fst kvs) ys)))))"
        by (rule extends_hbind[OF vals[OF ODict]]) (rule extends_new_obj)
      then show ?thesis using True ODict by (simp add: deepcopy.simps)
    qed (use True "1.prems" in \<open>simp_all add: deepcopy.simps\<close>)
  qed
next
  case (2 h a)
  then show ?case by simp
next
  case (3 h a x xs)
  show ?case
  proof (cases "x < a")
    case False
    then show ?thesis using "3.prems" by simp
  next
    case True
    have one: "extends H (fst (deepcopy h x))"
      by (rule "3.IH"(1)[OF True "3.prems"])
    have rest: "extends H (fst (deepcopy_items h1 a xs))" if "extends H h1" for h1
      by (rule "3.IH"(2)[OF True that])
    have "extends H (fst (hbind (deepcopy h x) (\<lambda>h' y.
              hbind (deepcopy_items h' a xs) (\<lambda>h'' ys. (h'', Inr (y # ys))))))"
      by (rule extends_hbind[OF one], rule extends_hbind[OF rest]) simp_all
    then show ?thesis using True by simp
  qed
qed

lemmas extends_deepcopy = extends_deepcopy_both(1)

lemmas extends_deepcopy_items = extends_deepcopy_both(2)

lemma deepcopy_fresh:
  assumes "deepcopy h a = (h', Inr c)" "extends H h"
  shows "fresh H c"
proof (cases "a < length h")
  case False
  then show ?thesis using assms by (simp add: deepcopy.simps)
next
  case True
  have new: "fresh H c" if "hbind (deepcopy_items h a xs) (\<lambda>h' ys. new_obj h' (f ys)) = (h', Inr c)"
    for xs f
  proof -
    obtain h1 r where r: "deepcopy_items h a xs = (h1, r)" by (cases "deepcopy_items h a xs")
    have "extends H h1" using extends_deepcopy_items[OF assms(2), of a xs] r by simp
    then show ?thesis using that r
      by (cases r) (auto simp: hbind_def dest: new_obj_fresh)
  qed
  have atom: "fresh H c" if "deepcopy h a = (h, Inr a)" "\<not> is_dict_at h a"
  proof -
    have "c = a" using that(1) assms(1) by simp
    moreover have "lookup h a = lookup H a" if "a < length H"
      using extends_lookup[OF assms(2) that] .
    ultimately show ?thesis using that(2) by (auto simp: fresh_def is_dict_at_def)
  qed
  show ?thesis
  proof (cases "h ! a")
    case (OList xs)
    then show ?thesis using True assms(1) new[of xs OList] by (simp add: deepcopy.simps)
  next
    case (ODict kvs)
    then show ?thesis
      using True assms(1) new[of "map snd kvs" "\<lambda>ys. ODict (zip (map fst kvs) ys)"]
      by (simp add: deepcopy.simps)
  qed (use True in \<open>auto intro!: atom simp: deepcopy.simps is_dict_at_def lookup_def\<close>)
qed

lemma extends_hbind_deepcopy:
  assumes "extends H h"
    and "\<And>h' c. extends H h' \<Longrightarrow> fresh H c \<Longrightarrow> extends H (fst (k h' c))"
  shows "extends H (fst (hbind (deepcopy h a) k))"
  by (rule extends_hbind[OF extends_deepcopy[OF assms(1)]])
     (rule assms(2), assumption, erule deepcopy_fresh[OF _ assms(1)])

lemma extends_hbind_new_obj:
  assumes "extends H h"
    and "\<And>h' c. extends H h' \<Longrightarrow> fresh H c \<Longrightarrow> extends H (fst (k h' c))"
  shows "extends H (fst (hbind (new_obj h ob) k))"
  by (rule extends_hbind[OF extends_new_obj[OF assms(1)]])
     (rule assms(2), assumption, erule new_obj_fresh[OF _ assms(1)])

lemma extends_if:
  assumes "c \<Longrightarrow> extends H (fst x)" "\<not> c \<Longrightarrow> extends H (fst y)"
  shows "extends H (fst (if c then x else y))"
  using assms by simp

lemma extends_pair: "extends H h \<Longrightarrow> extends H (fst (h, r))"
  by simp

lemma extends_sort_fields: "extends H h \<Longrightarrow> extends H (fst (sort_fields_heap h a))"
  unfolding sort_fields_heap_def
  by (intro extends_hbind extends_iter extends_sorted_by) assumption+

lemma extends_sort_member:
  assumes "extends H h" "fresh H c"
  shows "extends H (fst (sort_member_heap k h c))"
proof -
  have "extends H (fst (hbind (sorted_plain_heap h xs) (\<lambda>h ys. (setitem h c k ys, Inr ()))))"
    for xs
    by (rule extends_hbind[OF extends_sorted_plain[OF assms(1)]])
       (simp add: extends_setitem assms(2))
  then show ?thesis
    using assms(1) by (simp add: sort_member_heap_def split: obj.splits option.splits)
qed

lemma extends_rekey:
  assumes "extends H h" "fresh H g"
  shows "extends H (fst (rekey_heap k h g))"
proof -
  have "extends H (fst (hbind (new_obj h ob) (\<lambda>h d. (setitem h g k d, Inr ()))))" for ob
    by (rule extends_hbind[OF extends_new_obj[OF assms(1)]])
       (simp add: extends_setitem assms(2))
  then show ?thesis
    using assms(1) by (simp add: rekey_heap_def split: obj.splits option.splits)
qed

lemma extends_canon_entity: "extends H h \<Longrightarrow> extends H (fst (canon_entity_heap h entity))"
  unfolding canon_entity_heap_def
  by (intro extends_hbind_deepcopy extends_hbind extends_get_or_new extends_sort_fields
      extends_sort_member extends_setitem extends_pair) assumption+

lemma extends_canon_term: "extends H h \<Longrightarrow> extends H (fst (canon_term_heap h term))"
  unfolding canon_term_heap_def
  by (intro extends_hbind_deepcopy extends_if extends_hbind extends_sort_member extends_pair)
     assumption+

lemma extends_sort_entities: "extends H h \<Longrightarrow> extends H (fst (sort_entities_heap h a))"
  unfolding sort_entities_heap_def
  by (intro extends_hbind extends_iter extends_map_heap extends_canon_entity extends_sorted_by)
     assumption+

lemma extends_sort_glossary: "extends H h \<Longrightarrow> extends H (fst (sort_glossary_heap h a))"
  unfolding sort_glossary_heap_def
  by (intro extends_hbind extends_iter extends_map_heap extends_canon_term extends_sorted_by)
     assumption+

lemma extends_sort_relationships:
  "extends H h \<Longrightarrow> extends H (fst (sort_relationships_heap h a))"
  unfolding sort_relationships_heap_def
  by (intro extends_hbind extends_iter extends_sorted_by_tuple) assumption+

lemma extends_sort_rules: "extends H h \<Longrightarrow> extends H (fst (sort_rules_heap h a))"
  unfolding sort_rules_heap_def
  by (intro extends_hbind extends_iter extends_sorted_by_tuple) assumption+

lemma extends_sort_indexes: "extends H h \<Longrightarrow> extends H (fst (sort_indexes_heap h a))"
  unfolding sort_indexes_heap_def
  by (intro extends_hbind_deepcopy extends_hbind extends_iter extends_sorted_by_tuple)
     assumption+

lemma extends_compile_model: "extends H h \<Longrightarrow> extends H (fst (compile_model_heap h model))"
  unfolding compile_model_heap_def
  by (intro extends_hbind_deepcopy extends_hbind_new_obj extends_if extends_hbind
      extends_get_or_new extends_sort_entities extends_sort_relationships extends_sort_indexes
      extends_sort_rules extends_sort_glossary extends_rekey extends_sort_member
      extends_setitem extends_pair) assumption+

text \<open>
  C9.  \<^verbatim>\<open>compile_model\<close> changes no object that exists when it is called: whether it returns
  or raises, the store it leaves holds every object of the store it was given, unchanged,
  at its address.  That covers the document and everything reachable from it.
\<close>

theorem compile_model_keeps_argument:
  "take (length h) (fst (compile_model_heap h model)) = h"
  using extends_compile_model[OF extends_refl, of h model] by (simp add: extends_def)

end
